theory Spec2Isabelle
  imports Main "HOL-Library.Word"
begin

section \<open>The cooperative scheduler of copos.c\<close>

text \<open>
  The development embeds \<^verbatim>\<open>src/sgermino/Ejer5/src/copos.c\<close>: a fixed table of task
  slots, advanced by \<^verbatim>\<open>schedulerUpdate\<close> from the timer interrupt and drained by
  \<^verbatim>\<open>schedulerDispatchTasks\<close> from the main loop. Every C function becomes a function
  on an explicit scheduler state that returns its result code together with the new state.
\<close>

subsection \<open>Data model\<close>

text \<open>
  Modelled from the spec: the declaration of \<^verbatim>\<open>sTask_t\<close> lives in \<^verbatim>\<open>copos.h\<close>, which is
  not among the sources. The five fields are the ones \<^verbatim>\<open>copos.c\<close> reads and writes. The
  spec's data model gives \<^verbatim>\<open>delay\<close> as unsigned, and \<^verbatim>\<open>schedulerAddTask\<close> takes
  \<^verbatim>\<open>uint32_t delay\<close> and \<^verbatim>\<open>uint32_t period\<close>, so \<^verbatim>\<open>delay\<close>, \<^verbatim>\<open>period\<close> and
  \<^verbatim>\<open>runMe\<close> are 32-bit unsigned words: \<open>-\<close> and \<open>+\<close> wrap around and \<open>0 < w\<close> is the
  unsigned comparison. The two pointers are addresses, \<open>0\<close> being the null pointer.
  The field \<^verbatim>\<open>context\<close> is spelled \<open>task_context\<close>, since \<open>context\<close> is reserved.
  Slot indices (\<^verbatim>\<open>uint32_t taskIndex\<close>, the result of \<^verbatim>\<open>schedulerAddTask\<close>) are natural
  numbers: the table is far shorter than \<open>2 ^ 32\<close>, so no index arithmetic wraps.
\<close>

record sTask_t =
  pTask :: nat
  task_context :: nat
  delay :: "32 word"
  period :: "32 word"
  runMe :: "32 word"

text \<open>The slot that \<^verbatim>\<open>memset (&schedulerTasks[i], 0, sizeof(sTask_t))\<close> leaves behind.\<close>

definition zero_task :: sTask_t where
  "zero_task = \<lparr>pTask = 0, task_context = 0, delay = 0, period = 0, runMe = 0\<rparr>"

text \<open>
  A task function is opaque: the model records each invocation \<^verbatim>\<open>t->pTask (t->context, ticks)\<close>
  in a log, together with the index of the slot it was made from, and takes the call to
  leave the scheduler's own data alone. A call through a null pointer would be logged like
  any other, with \<open>call_fn = 0\<close>.
\<close>

record call =
  call_slot :: nat
  call_fn :: nat
  call_ctx :: nat
  call_ticks :: "32 word"

text \<open>
  The globals of the file: the array \<^verbatim>\<open>schedulerTasks[SCHEDULER_MAX_TASKS]\<close> and
  \<^verbatim>\<open>char errorCode\<close>, plus the log of invocations. The constant
  \<^verbatim>\<open>SCHEDULER_MAX_TASKS\<close> is defined in the absent header; it is the declared length of
  the array, so the model reads it off the list.
\<close>

record scheduler =
  schedulerTasks :: "sTask_t list"
  errorCode :: "8 word"
  calls :: "call list"

definition SCHEDULER_MAX_TASKS :: "scheduler \<Rightarrow> nat" where
  "SCHEDULER_MAX_TASKS s = length (schedulerTasks s)"

subsection \<open>Registry: delete, add, modify\<close>

text \<open>\<^verbatim>\<open>schedulerDeleteTask\<close>: the result code is \<open>-1\<close> (error) or \<open>0\<close> (normal).\<close>

definition schedulerDeleteTask :: "nat \<Rightarrow> scheduler \<Rightarrow> int \<times> scheduler" where
  "schedulerDeleteTask taskIndex s =
     (if taskIndex \<ge> SCHEDULER_MAX_TASKS s then (- 1, s)
      else
        let (returnCode, s1) =
              (if pTask (schedulerTasks s ! taskIndex) = 0
               then (- 1, s\<lparr>errorCode := 2\<rparr>)
               else (0, s))
        in (returnCode, s1\<lparr>schedulerTasks := (schedulerTasks s1)[taskIndex := zero_task]\<rparr>))"

text \<open>The search loop of \<^verbatim>\<open>schedulerAddTask\<close>:
  \<^verbatim>\<open>while (i < SCHEDULER_MAX_TASKS && schedulerTasks[i].pTask) i ++;\<close>\<close>

function find_gap :: "sTask_t list \<Rightarrow> nat \<Rightarrow> nat" where
  "find_gap ts i = (if i < length ts \<and> pTask (ts ! i) \<noteq> 0 then find_gap ts (i + 1) else i)"
  by pat_completeness auto
termination
  by (relation "measure (\<lambda>(ts, i). length ts - i)") auto

declare find_gap.simps [simp del]

definition schedulerAddTask ::
  "nat \<Rightarrow> nat \<Rightarrow> 32 word \<Rightarrow> 32 word \<Rightarrow> scheduler \<Rightarrow> nat \<times> scheduler" where
  "schedulerAddTask pFunction ctx dly per s =
     (let i = find_gap (schedulerTasks s) 0 in
      if i = SCHEDULER_MAX_TASKS s
      then (SCHEDULER_MAX_TASKS s, s\<lparr>errorCode := 2\<rparr>)
      else (i, s\<lparr>schedulerTasks := (schedulerTasks s)
                  [i := (schedulerTasks s ! i)
                          \<lparr>pTask := pFunction, task_context := ctx,
                           delay := dly, period := per, runMe := 0\<rparr>]\<rparr>))"

definition schedulerModifyTaskPeriod :: "nat \<Rightarrow> 32 word \<Rightarrow> scheduler \<Rightarrow> int \<times> scheduler" where
  "schedulerModifyTaskPeriod taskIndex newPeriod s =
     (if taskIndex \<ge> SCHEDULER_MAX_TASKS s then (- 1, s)
      else if pTask (schedulerTasks s ! taskIndex) = 0 then (- 1, s)
      else (0, s\<lparr>schedulerTasks := (schedulerTasks s)
                  [taskIndex := (schedulerTasks s ! taskIndex)\<lparr>period := newPeriod\<rparr>]\<rparr>))"

subsection \<open>Initialisation\<close>

definition schedulerInit :: "scheduler \<Rightarrow> scheduler" where
  "schedulerInit s =
     (fold (\<lambda>i s'. snd (schedulerDeleteTask i s')) [0..<SCHEDULER_MAX_TASKS s] s)
       \<lparr>errorCode := 0\<rparr>"

subsection \<open>Tick Updater\<close>

text \<open>
  The body of the loop of \<^verbatim>\<open>schedulerUpdate\<close> on the slot \<^verbatim>\<open>t\<close>. The test
  \<^verbatim>\<open>!t->pTask || -- t->delay > 0\<close> short-circuits: a free slot is not decremented.
\<close>

definition update_task :: "sTask_t \<Rightarrow> sTask_t" where
  "update_task t =
     (if pTask t = 0 then t
      else
        let t1 = t\<lparr>delay := delay t - 1\<rparr> in
        if 0 < delay t1 then t1
        else
          let t2 = t1\<lparr>runMe := runMe t1 + 1\<rparr> in
          if period t2 \<noteq> 0 then t2\<lparr>delay := period t2\<rparr> else t2)"

definition update_slot :: "nat \<Rightarrow> scheduler \<Rightarrow> scheduler" where
  "update_slot i s =
     s\<lparr>schedulerTasks := (schedulerTasks s)[i := update_task (schedulerTasks s ! i)]\<rparr>"

definition schedulerUpdate :: "32 word \<Rightarrow> scheduler \<Rightarrow> scheduler" where
  "schedulerUpdate ticks s = fold update_slot [0..<SCHEDULER_MAX_TASKS s] s"

subsection \<open>Dispatcher\<close>

text \<open>
  \<^verbatim>\<open>schedulerReportStatus\<close> has an empty body unless \<^verbatim>\<open>SCH_REPORT_ERRORS\<close> is defined;
  the variables its guarded body names are commented out at the top of the file, so the
  guard is off. \<^verbatim>\<open>__WFI\<close> parks the processor and changes no data.
\<close>

definition schedulerReportStatus :: "scheduler \<Rightarrow> scheduler" where
  "schedulerReportStatus s = s"

definition dispatch_slot :: "32 word \<Rightarrow> nat \<Rightarrow> scheduler \<Rightarrow> scheduler" where
  "dispatch_slot ticks i s =
     (let t = schedulerTasks s ! i in
      if 0 < runMe t then
        let s1 = s\<lparr>calls := calls s @
                    [\<lparr>call_slot = i, call_fn = pTask t,
                      call_ctx = task_context t, call_ticks = ticks\<rparr>]\<rparr>;
            t1 = schedulerTasks s1 ! i;
            s2 = s1\<lparr>schedulerTasks := (schedulerTasks s1)[i := t1\<lparr>runMe := runMe t1 - 1\<rparr>]\<rparr>
        in if period (schedulerTasks s2 ! i) = 0
           then snd (schedulerDeleteTask i s2)
           else s2
      else s)"

definition schedulerDispatchTasks :: "32 word \<Rightarrow> scheduler \<Rightarrow> scheduler" where
  "schedulerDispatchTasks ticks s =
     schedulerReportStatus (fold (dispatch_slot ticks) [0..<SCHEDULER_MAX_TASKS s] s)"

subsection \<open>Sequences of calls\<close>

text \<open>
  One entry point of the scheduler with its arguments, and the state after a sequence of
  them. The result codes are dropped here; the theorems on single calls state them.
\<close>

datatype api =
    AddTask nat nat "32 word" "32 word"
  | DeleteTask nat
  | ModifyTaskPeriod nat "32 word"
  | TickStep "32 word"
  | DispatchOnce "32 word"

fun api_call :: "api \<Rightarrow> scheduler \<Rightarrow> scheduler" where
  "api_call (AddTask f c d p) s = snd (schedulerAddTask f c d p s)"
| "api_call (DeleteTask i) s = snd (schedulerDeleteTask i s)"
| "api_call (ModifyTaskPeriod i p) s = snd (schedulerModifyTaskPeriod i p s)"
| "api_call (TickStep tk) s = schedulerUpdate tk s"
| "api_call (DispatchOnce tk) s = schedulerDispatchTasks tk s"

definition run :: "api list \<Rightarrow> scheduler \<Rightarrow> scheduler" where
  "run ops s = fold api_call ops s"

subsection \<open>Vocabulary of the statements\<close>

text \<open>
  What one pass of the dispatcher's loop body does to a slot, and the invocations one pass
  over a table records; \<open>dispatch_tasks\<close> and \<open>dispatch_calls\<close> below relate them to
  \<open>schedulerDispatchTasks\<close>.
\<close>

definition dispatch_task :: "sTask_t \<Rightarrow> sTask_t" where
  "dispatch_task t =
     (if 0 < runMe t then (if period t = 0 then zero_task else t\<lparr>runMe := runMe t - 1\<rparr>)
      else t)"

definition call_of :: "32 word \<Rightarrow> sTask_t list \<Rightarrow> nat \<Rightarrow> call list" where
  "call_of ticks ts i =
     (if 0 < runMe (ts ! i)
      then [\<lparr>call_slot = i, call_fn = pTask (ts ! i),
             call_ctx = task_context (ts ! i), call_ticks = ticks\<rparr>]
      else [])"

definition dispatch_calls :: "32 word \<Rightarrow> sTask_t list \<Rightarrow> call list" where
  "dispatch_calls ticks ts = concat (map (call_of ticks ts) [0..<length ts])"

text \<open>A slot is occupied iff its function pointer is not null.\<close>

definition occupied :: "sTask_t \<Rightarrow> bool" where
  "occupied t = (pTask t \<noteq> 0)"

text \<open>The calls that neither delete slot \<open>i\<close> nor change its period.\<close>

fun keeps :: "nat \<Rightarrow> api \<Rightarrow> bool" where
  "keeps i (DeleteTask j) = (j \<noteq> i)"
| "keeps i (ModifyTaskPeriod j p) = (j \<noteq> i)"
| "keeps i _ = True"

fun is_tick :: "api \<Rightarrow> bool" where
  "is_tick (TickStep tk) = True"
| "is_tick _ = False"

fun is_dispatch :: "api \<Rightarrow> bool" where
  "is_dispatch (DispatchOnce tk) = True"
| "is_dispatch _ = False"

fun is_add :: "api \<Rightarrow> bool" where
  "is_add (AddTask f c d p) = True"
| "is_add _ = False"

text \<open>The number of timer ticks in a sequence of calls.\<close>

definition ticks_in :: "api list \<Rightarrow> nat" where
  "ticks_in ops = length (filter is_tick ops)"

text \<open>
  The number of ticks until a countdown that stands at \<open>d\<close> expires: the updater
  decrements before it tests, so a countdown standing at zero wraps and runs for
  \<open>2 ^ 32\<close> ticks.
\<close>

definition countdown :: "32 word \<Rightarrow> nat" where
  "countdown d = (if d = 0 then 2 ^ 32 else unat d)"

text \<open>The invocations in a log that were made from slot \<open>i\<close>.\<close>

definition calls_from :: "nat \<Rightarrow> scheduler \<Rightarrow> call list" where
  "calls_from i s = filter (\<lambda>c. call_slot c = i) (calls s)"

text \<open>
  The closed form of a countdown under ticks alone. A slot whose countdown stands at \<open>d\<close>
  and whose period is \<open>p\<close> expires for the first time at tick \<open>countdown d\<close> and then
  every \<open>countdown p\<close> ticks (a one-shot slot that nobody dispatches wraps around its
  full range). \<open>remaining d p n\<close> is the number of ticks left to the next expiry after
  \<open>n\<close> ticks, and \<open>firings d p n\<close> the number of expiries among the first \<open>n\<close> ticks.
\<close>

definition remaining :: "32 word \<Rightarrow> 32 word \<Rightarrow> nat \<Rightarrow> nat" where
  "remaining d p n =
     (if n < countdown d then countdown d - n
      else countdown p - (n - countdown d) mod countdown p)"

definition firings :: "32 word \<Rightarrow> 32 word \<Rightarrow> nat \<Rightarrow> nat" where
  "firings d p n =
     (if n < countdown d then 0 else (n - countdown d) div countdown p + 1)"

text \<open>What a call makes of a slot that it neither deletes nor re-registers.\<close>

fun slot_step :: "api \<Rightarrow> sTask_t \<Rightarrow> sTask_t" where
  "slot_step (TickStep tk) t = update_task t"
| "slot_step (DispatchOnce tk) t = dispatch_task t"
| "slot_step _ t = t"

section \<open>Basic facts\<close>

subsection \<open>The search for a free slot\<close>

lemma find_gap_ge: "i \<le> find_gap ts i"
  by (induction ts i rule: find_gap.induct) (subst find_gap.simps, auto)

lemma find_gap_le: "i \<le> length ts \<Longrightarrow> find_gap ts i \<le> length ts"
  by (induction ts i rule: find_gap.induct) (subst find_gap.simps, auto)

lemma find_gap_free: "find_gap ts i < length ts \<Longrightarrow> pTask (ts ! find_gap ts i) = 0"
proof (induction ts i rule: find_gap.induct)
  case (1 ts i)
  then show ?case by (subst (asm) (2) find_gap.simps, subst find_gap.simps) (auto split: if_splits)
qed

lemma find_gap_occupied: "i \<le> j \<Longrightarrow> j < find_gap ts i \<Longrightarrow> pTask (ts ! j) \<noteq> 0"
proof (induction ts i rule: find_gap.induct)
  case (1 ts i)
  show ?case
  proof (cases "i < length ts \<and> pTask (ts ! i) \<noteq> 0")
    case True
    then have eq: "find_gap ts i = find_gap ts (i + 1)" by (subst find_gap.simps) simp
    show ?thesis
    proof (cases "j = i")
      case True with \<open>i < length ts \<and> pTask (ts ! i) \<noteq> 0\<close> show ?thesis by simp
    next
      case False
      with "1.prems" eq have "i + 1 \<le> j" "j < find_gap ts (i + 1)" by auto
      with "1.IH" True show ?thesis by blast
    qed
  next
    case False
    then have "find_gap ts i = i" by (subst find_gap.simps) auto
    with "1.prems" show ?thesis by simp
  qed
qed

lemma find_gap_least:
  assumes "i < length ts" "pTask (ts ! i) = 0" "\<forall>j<i. pTask (ts ! j) \<noteq> 0"
  shows "find_gap ts 0 = i"
proof -
  have "\<not> i < find_gap ts 0" using find_gap_occupied[of 0 i ts] assms(2) by auto
  moreover have "\<not> find_gap ts 0 < i"
  proof
    assume lt: "find_gap ts 0 < i"
    then have "find_gap ts 0 < length ts" using assms(1) by simp
    then have "pTask (ts ! find_gap ts 0) = 0" by (rule find_gap_free)
    with assms(3) lt show False by blast
  qed
  ultimately show ?thesis by simp
qed

lemma find_gap_full:
  assumes "\<forall>j<length ts. pTask (ts ! j) \<noteq> 0"
  shows "find_gap ts 0 = length ts"
proof -
  have "\<not> find_gap ts 0 < length ts" using find_gap_free[of ts 0] assms by blast
  moreover have "find_gap ts 0 \<le> length ts" by (rule find_gap_le) simp
  ultimately show ?thesis by simp
qed

subsection \<open>Loops over the table\<close>

lemma fold_slots:
  fixes body :: "nat \<Rightarrow> scheduler \<Rightarrow> scheduler"
  assumes len: "\<And>i s. length (schedulerTasks (body i s)) = length (schedulerTasks s)"
    and other: "\<And>i j s. j \<noteq> i \<Longrightarrow> schedulerTasks (body i s) ! j = schedulerTasks s ! j"
    and self: "\<And>i s. i < length (schedulerTasks s) \<Longrightarrow> schedulerTasks (body i s) ! i = f (schedulerTasks s ! i)"
  shows "n \<le> length (schedulerTasks s) \<Longrightarrow>
    schedulerTasks (fold body [0..<n] s) = map f (take n (schedulerTasks s)) @ drop n (schedulerTasks s)"
proof (induction n)
  case 0
  then show ?case by simp
next
  case (Suc n)
  let ?s = "fold body [0..<n] s"
  have IH: "schedulerTasks ?s = map f (take n (schedulerTasks s)) @ drop n (schedulerTasks s)"
    using Suc by simp
  have L: "length (schedulerTasks ?s) = length (schedulerTasks s)" using IH Suc.prems by simp
  have n: "n < length (schedulerTasks s)" using Suc.prems by simp
  show ?case
  proof (rule nth_equalityI)
    show "length (schedulerTasks (fold body [0..<Suc n] s)) =
      length (map f (take (Suc n) (schedulerTasks s)) @ drop (Suc n) (schedulerTasks s))"
      using L Suc.prems by (simp add: len)
  next
    fix j assume "j < length (schedulerTasks (fold body [0..<Suc n] s))"
    then have j: "j < length (schedulerTasks s)" using L by (simp add: len)
    show "schedulerTasks (fold body [0..<Suc n] s) ! j =
      (map f (take (Suc n) (schedulerTasks s)) @ drop (Suc n) (schedulerTasks s)) ! j"
    proof (cases "j = n")
      case True
      have "schedulerTasks (body n ?s) ! n = f (schedulerTasks ?s ! n)" using self L n by simp
      also have "schedulerTasks ?s ! n = schedulerTasks s ! n" using IH n by (simp add: nth_append)
      finally show ?thesis using True n by (simp add: nth_append)
    next
      case False
      have "schedulerTasks (body n ?s) ! j = schedulerTasks ?s ! j" using other False by simp
      then show ?thesis using IH False j n by (auto simp add: nth_append less_Suc_eq)
    qed
  qed
qed

subsection \<open>Single calls\<close>

lemma delete_tasks:
  "schedulerTasks (snd (schedulerDeleteTask i s)) =
     (if i < length (schedulerTasks s) then (schedulerTasks s)[i := zero_task] else schedulerTasks s)"
  by (simp add: schedulerDeleteTask_def SCHEDULER_MAX_TASKS_def)

lemma delete_calls: "calls (snd (schedulerDeleteTask i s)) = calls s"
  by (simp add: schedulerDeleteTask_def)

lemma task_overwrite:
  "(t::sTask_t)\<lparr>pTask := f, task_context := c, delay := d, period := p, runMe := r\<rparr> =
     \<lparr>pTask = f, task_context = c, delay = d, period = p, runMe = r\<rparr>"
  by (cases t) simp

lemma add_tasks:
  "schedulerTasks (snd (schedulerAddTask f c d p s)) =
     (schedulerTasks s)[find_gap (schedulerTasks s) 0 :=
        \<lparr>pTask = f, task_context = c, delay = d, period = p, runMe = 0\<rparr>]"
  by (simp add: schedulerAddTask_def SCHEDULER_MAX_TASKS_def Let_def task_overwrite
      list_update_beyond)

lemma add_calls: "calls (snd (schedulerAddTask f c d p s)) = calls s"
  by (simp add: schedulerAddTask_def Let_def)

lemma modify_tasks:
  "schedulerTasks (snd (schedulerModifyTaskPeriod i p s)) =
     (if i < length (schedulerTasks s) \<and> pTask (schedulerTasks s ! i) \<noteq> 0
      then (schedulerTasks s)[i := (schedulerTasks s ! i)\<lparr>period := p\<rparr>]
      else schedulerTasks s)"
  by (simp add: schedulerModifyTaskPeriod_def SCHEDULER_MAX_TASKS_def)

lemma modify_calls: "calls (snd (schedulerModifyTaskPeriod i p s)) = calls s"
  by (simp add: schedulerModifyTaskPeriod_def)

lemma update_tasks: "schedulerTasks (schedulerUpdate tk s) = map update_task (schedulerTasks s)"
proof -
  have "schedulerTasks (fold update_slot [0..<length (schedulerTasks s)] s) =
          map update_task (take (length (schedulerTasks s)) (schedulerTasks s)) @
          drop (length (schedulerTasks s)) (schedulerTasks s)"
    by (rule fold_slots) (simp_all add: update_slot_def)
  then show ?thesis by (simp add: schedulerUpdate_def SCHEDULER_MAX_TASKS_def)
qed

lemma fold_keeps:
  assumes "\<And>i s. g (body i s) = g s"
  shows "g (fold body xs s) = g s"
  using assms by (induction xs arbitrary: s) simp_all

lemma update_calls: "calls (schedulerUpdate tk s) = calls s"
  unfolding schedulerUpdate_def by (rule fold_keeps) (simp add: update_slot_def)

lemma update_errorCode: "errorCode (schedulerUpdate tk s) = errorCode s"
  unfolding schedulerUpdate_def by (rule fold_keeps) (simp add: update_slot_def)

lemma dispatch_slot_tasks:
  "schedulerTasks (dispatch_slot tk i s) =
     (if i < length (schedulerTasks s)
      then (schedulerTasks s)[i := dispatch_task (schedulerTasks s ! i)]
      else schedulerTasks s)"
  by (simp add: dispatch_slot_def dispatch_task_def delete_tasks Let_def not_less
      list_update_beyond)

lemma dispatch_slot_calls:
  "calls (dispatch_slot tk i s) = calls s @ call_of tk (schedulerTasks s) i"
  by (simp add: dispatch_slot_def call_of_def delete_calls Let_def)

lemma dispatch_fold_tasks:
  "n \<le> length (schedulerTasks s) \<Longrightarrow>
     schedulerTasks (fold (dispatch_slot tk) [0..<n] s) =
       map dispatch_task (take n (schedulerTasks s)) @ drop n (schedulerTasks s)"
  by (rule fold_slots) (simp_all add: dispatch_slot_tasks)

lemma dispatch_tasks:
  "schedulerTasks (schedulerDispatchTasks tk s) = map dispatch_task (schedulerTasks s)"
  by (simp add: schedulerDispatchTasks_def schedulerReportStatus_def SCHEDULER_MAX_TASKS_def
      dispatch_fold_tasks)

lemma dispatch_fold_calls:
  "n \<le> length (schedulerTasks s) \<Longrightarrow>
     calls (fold (dispatch_slot tk) [0..<n] s) =
       calls s @ concat (map (call_of tk (schedulerTasks s)) [0..<n])"
proof (induction n)
  case 0
  then show ?case by simp
next
  case (Suc n)
  then have n: "n < length (schedulerTasks s)" by simp
  have "call_of tk (schedulerTasks (fold (dispatch_slot tk) [0..<n] s)) n =
        call_of tk (schedulerTasks s) n"
    using n by (simp add: call_of_def dispatch_fold_tasks nth_append)
  then show ?case using Suc n by (simp add: dispatch_slot_calls)
qed

lemma dispatch_calls:
  "calls (schedulerDispatchTasks tk s) = calls s @ dispatch_calls tk (schedulerTasks s)"
  by (simp add: schedulerDispatchTasks_def schedulerReportStatus_def SCHEDULER_MAX_TASKS_def
      dispatch_fold_calls dispatch_calls_def)

lemma init_tasks:
  "schedulerTasks (schedulerInit s) = replicate (length (schedulerTasks s)) zero_task"
proof -
  have "schedulerTasks (fold (\<lambda>i s'. snd (schedulerDeleteTask i s')) [0..<length (schedulerTasks s)] s) =
          map (\<lambda>_. zero_task) (take (length (schedulerTasks s)) (schedulerTasks s)) @
          drop (length (schedulerTasks s)) (schedulerTasks s)"
    by (rule fold_slots) (simp_all add: delete_tasks)
  then show ?thesis
    by (simp add: schedulerInit_def SCHEDULER_MAX_TASKS_def map_replicate_const)
qed

lemma init_calls: "calls (schedulerInit s) = calls s"
proof -
  have "calls (fold (\<lambda>i s'. snd (schedulerDeleteTask i s')) [0..<SCHEDULER_MAX_TASKS s] s) = calls s"
    by (rule fold_keeps) (simp add: delete_calls)
  then show ?thesis by (simp add: schedulerInit_def)
qed

lemma init_errorCode: "errorCode (schedulerInit s) = 0"
  by (simp add: schedulerInit_def)

lemma api_call_length: "length (schedulerTasks (api_call a s)) = length (schedulerTasks s)"
  by (cases a) (simp_all add: add_tasks delete_tasks modify_tasks update_tasks dispatch_tasks)

lemma run_length: "length (schedulerTasks (run ops s)) = length (schedulerTasks s)"
  unfolding run_def by (induction ops arbitrary: s) (simp_all add: api_call_length)

lemma run_append: "run (xs @ ys) s = run ys (run xs s)"
  by (simp add: run_def)

lemma run_Nil: "run [] s = s"
  by (simp add: run_def)

lemma run_Cons: "run (a # ops) s = run ops (api_call a s)"
  by (simp add: run_def)

section \<open>Countdowns\<close>

lemma countdown_pos: "0 < countdown d"
  by (simp add: countdown_def unat_gt_0)

lemma countdown_le: "countdown d \<le> 2 ^ 32"
proof -
  have "unat d < 2 ^ LENGTH(32)" by (rule unsigned_less)
  then have "unat d < 2 ^ 32" by simp
  then show ?thesis by (simp add: countdown_def)
qed

lemma of_nat_countdown: "(of_nat (countdown d) :: 32 word) = d"
proof (cases "d = 0")
  case True
  have "(of_nat (2 ^ 32) :: 32 word) = 0" by simp
  with True show ?thesis by (simp add: countdown_def)
next
  case False
  then show ?thesis by (simp add: countdown_def)
qed

lemma remaining_pos: "0 < remaining d p n"
proof -
  have "(n - countdown d) mod countdown p < countdown p"
    using countdown_pos[of p] by simp
  then show ?thesis by (simp add: remaining_def)
qed

lemma remaining_le: "remaining d p n \<le> 2 ^ 32"
proof -
  have "countdown d - n \<le> 2 ^ 32" using countdown_le[of d] by simp
  moreover have "countdown p - (n - countdown d) mod countdown p \<le> 2 ^ 32"
    using countdown_le[of p] by simp
  ultimately show ?thesis unfolding remaining_def by presburger
qed

lemma remaining_0: "remaining d p 0 = countdown d"
  using countdown_pos[of d] by (simp add: remaining_def)

lemma firings_0: "firings d p 0 = 0"
  using countdown_pos[of d] by (simp add: firings_def)

lemma remaining_before: "n < countdown d \<Longrightarrow> remaining d p n = countdown d - n"
  by (simp add: remaining_def)

lemma firings_before: "n < countdown d \<Longrightarrow> firings d p n = 0"
  by (simp add: firings_def)

lemma remaining_expiry:
  "remaining d p n = 1 \<longleftrightarrow> countdown d \<le> Suc n \<and> (Suc n - countdown d) mod countdown p = 0"
proof (cases "n < countdown d")
  case True
  then show ?thesis by (auto simp add: remaining_def)
next
  case False
  define m where "m = n - countdown d"
  have P: "0 < countdown p" by (rule countdown_pos)
  have eq: "Suc n - countdown d = Suc m" using False by (simp add: m_def)
  have lt: "m mod countdown p < countdown p" using P by simp
  have "remaining d p n = countdown p - m mod countdown p"
    using False by (simp add: remaining_def m_def)
  moreover have "countdown p - m mod countdown p = 1 \<longleftrightarrow> Suc m mod countdown p = 0"
    using lt by (auto simp add: mod_Suc)
  ultimately show ?thesis using False eq by simp
qed

lemma remaining_Suc:
  "remaining d p (Suc n) = (if remaining d p n = 1 then countdown p else remaining d p n - 1)"
proof (cases "Suc n < countdown d")
  case True
  then show ?thesis by (auto simp add: remaining_def)
next
  case False
  note F = this
  show ?thesis
  proof (cases "n < countdown d")
    case True
    with F have "countdown d = Suc n" by simp
    then show ?thesis by (simp add: remaining_def)
  next
    case False
    define m where "m = n - countdown d"
    have P: "0 < countdown p" by (rule countdown_pos)
    have eq: "Suc n - countdown d = Suc m" using False by (simp add: m_def)
    have lt: "m mod countdown p < countdown p" using P by simp
    have r: "remaining d p n = countdown p - m mod countdown p"
      using False by (simp add: remaining_def m_def)
    have r': "remaining d p (Suc n) = countdown p - Suc m mod countdown p"
      using F eq by (simp add: remaining_def)
    show ?thesis unfolding r r' using lt by (auto simp add: mod_Suc)
  qed
qed

lemma firings_Suc:
  "firings d p (Suc n) = (if remaining d p n = 1 then firings d p n + 1 else firings d p n)"
proof (cases "Suc n < countdown d")
  case True
  then show ?thesis by (auto simp add: remaining_def firings_def)
next
  case False
  note F = this
  show ?thesis
  proof (cases "n < countdown d")
    case True
    with F have "Suc n = countdown d" by simp
    then show ?thesis using True by (simp add: remaining_def firings_def)
  next
    case False
    define m where "m = n - countdown d"
    have P: "0 < countdown p" by (rule countdown_pos)
    have eq: "Suc n - countdown d = Suc m" using False by (simp add: m_def)
    have lt: "m mod countdown p < countdown p" using P by simp
    have r: "remaining d p n = countdown p - m mod countdown p"
      using False by (simp add: remaining_def m_def)
    have f: "firings d p n = m div countdown p + 1"
      using False by (simp add: firings_def m_def)
    have f': "firings d p (Suc n) = Suc m div countdown p + 1"
      using F eq by (simp add: firings_def)
    show ?thesis unfolding r f f' using lt by (auto simp add: mod_Suc div_Suc)
  qed
qed

subsection \<open>One tick on one slot\<close>


lemma update_task_occupied:
  "pTask t \<noteq> 0 \<Longrightarrow>
     update_task t =
       (if delay t = 1
        then t\<lparr>delay := period t, runMe := runMe t + 1\<rparr>
        else t\<lparr>delay := delay t - 1\<rparr>)"
  by (cases t) (auto simp add: update_task_def Let_def word_neq_0_conv [symmetric])

lemma of_nat_pred: "0 < r \<Longrightarrow> (of_nat r :: 32 word) - 1 = of_nat (r - 1)"
  by (cases r) simp_all

lemma of_nat_eq_1: "0 < r \<Longrightarrow> r \<le> 2 ^ 32 \<Longrightarrow> (of_nat r :: 32 word) = 1 \<longleftrightarrow> r = 1"
proof
  assume r: "0 < r" "r \<le> 2 ^ 32" and w: "(of_nat r :: 32 word) = 1"
  have "(of_nat (r - 1) :: 32 word) = 0" using of_nat_pred[OF r(1)] w by simp
  moreover have "r - 1 < 2 ^ 32" using r by simp
  ultimately have "r - 1 = 0"
    by (auto simp add: word_of_nat_eq_0_iff dest: dvd_imp_le)
  with r show "r = 1" by simp
next
  assume "r = 1" then show "(of_nat r :: 32 word) = 1" by simp
qed

lemma ticks_closed:
  assumes "pTask t \<noteq> 0"
  shows "(update_task ^^ n) t =
           t\<lparr>delay := of_nat (remaining (delay t) (period t) n),
             runMe := runMe t + of_nat (firings (delay t) (period t) n)\<rparr>"
proof (induction n)
  case 0
  show ?case by (simp add: remaining_0 firings_0 of_nat_countdown)
next
  case (Suc n)
  let ?r = "remaining (delay t) (period t) n"
  let ?tn = "t\<lparr>delay := of_nat ?r, runMe := runMe t + of_nat (firings (delay t) (period t) n)\<rparr>"
  have occ: "pTask ?tn \<noteq> 0" using assms by simp
  have one: "(of_nat ?r :: 32 word) = 1 \<longleftrightarrow> ?r = 1"
    using of_nat_eq_1[OF remaining_pos remaining_le] .
  have pred: "(of_nat ?r :: 32 word) - 1 = of_nat (?r - 1)"
    by (rule of_nat_pred) (rule remaining_pos)
  have "(update_task ^^ Suc n) t = update_task ?tn" using Suc by simp
  also have "\<dots> = t\<lparr>delay := of_nat (remaining (delay t) (period t) (Suc n)),
             runMe := runMe t + of_nat (firings (delay t) (period t) (Suc n))\<rparr>"
    unfolding update_task_occupied[OF occ]
    using one pred by (simp add: remaining_Suc firings_Suc of_nat_countdown add.assoc)
  finally show ?case .
qed

section \<open>One slot under a sequence of calls\<close>

lemma update_task_pTask: "pTask (update_task t) = pTask t"
  by (simp add: update_task_def Let_def)

lemma zero_task_fields:
  "pTask zero_task = 0" "task_context zero_task = 0" "delay zero_task = 0"
  "period zero_task = 0" "runMe zero_task = 0"
  by (simp_all add: zero_task_def)

lemma update_task_zero: "update_task zero_task = zero_task"
  by (simp add: update_task_def zero_task_def)

lemma dispatch_task_zero: "dispatch_task zero_task = zero_task"
  by (simp add: dispatch_task_def zero_task_def)

lemma dispatch_task_idle: "runMe t = 0 \<Longrightarrow> dispatch_task t = t"
  by (simp add: dispatch_task_def)

lemma add_other:
  assumes "i < length (schedulerTasks s)" "pTask (schedulerTasks s ! i) \<noteq> 0"
  shows "schedulerTasks (snd (schedulerAddTask f c d p s)) ! i = schedulerTasks s ! i"
proof -
  have "find_gap (schedulerTasks s) 0 \<noteq> i"
    using find_gap_free[of "schedulerTasks s" 0] assms by auto
  then show ?thesis by (simp add: add_tasks)
qed

lemma api_slot:
  assumes "keeps i a" "i < length (schedulerTasks s)" "pTask (schedulerTasks s ! i) \<noteq> 0"
  shows "schedulerTasks (api_call a s) ! i = slot_step a (schedulerTasks s ! i)"
  using assms
  by (cases a) (simp_all add: add_other delete_tasks modify_tasks update_tasks dispatch_tasks)

lemma filter_call_of:
  "filter (\<lambda>c. call_slot c = i) (concat (map (call_of tk ts) [0..<n])) =
     (if i < n then call_of tk ts i else [])"
proof (induction n)
  case 0
  show ?case by simp
next
  case (Suc n)
  have "filter (\<lambda>c. call_slot c = i) (call_of tk ts n) = (if i = n then call_of tk ts i else [])"
    by (auto simp add: call_of_def)
  with Suc show ?case by (auto simp add: less_Suc_eq)
qed

lemma calls_from_dispatch:
  "i < length (schedulerTasks s) \<Longrightarrow>
     calls_from i (schedulerDispatchTasks tk s) = calls_from i s @ call_of tk (schedulerTasks s) i"
  by (simp add: calls_from_def dispatch_calls dispatch_calls_def filter_call_of)

lemma api_calls_from:
  "\<not> is_dispatch a \<Longrightarrow> calls_from i (api_call a s) = calls_from i s"
  by (cases a) (simp_all add: calls_from_def add_calls delete_calls modify_calls update_calls)

lemma ticks_in_Nil: "ticks_in [] = 0"
  by (simp add: ticks_in_def)

lemma ticks_in_Cons: "ticks_in (a # ops) = (if is_tick a then Suc (ticks_in ops) else ticks_in ops)"
  by (simp add: ticks_in_def)

lemma ticks_in_append: "ticks_in (xs @ ys) = ticks_in xs + ticks_in ys"
  by (simp add: ticks_in_def)

lemma run_no_dispatch:
  assumes "\<forall>a\<in>set ops. keeps i a \<and> \<not> is_dispatch a"
    and "i < length (schedulerTasks s)" and "pTask (schedulerTasks s ! i) \<noteq> 0"
  shows "schedulerTasks (run ops s) ! i = (update_task ^^ ticks_in ops) (schedulerTasks s ! i) \<and>
         calls_from i (run ops s) = calls_from i s"
  using assms
proof (induction ops arbitrary: s)
  case Nil
  show ?case by (simp add: run_Nil ticks_in_Nil)
next
  case (Cons a ops)
  let ?s = "api_call a s"
  have k: "keeps i a" and nd: "\<not> is_dispatch a" using Cons.prems(1) by simp_all
  have slot: "schedulerTasks ?s ! i = slot_step a (schedulerTasks s ! i)"
    using api_slot[OF k Cons.prems(2,3)] .
  have len: "i < length (schedulerTasks ?s)" using Cons.prems(2) by (simp add: api_call_length)
  have occ: "pTask (schedulerTasks ?s ! i) \<noteq> 0"
    using slot Cons.prems(3) nd by (cases a) (simp_all add: update_task_pTask)
  have IH: "schedulerTasks (run ops ?s) ! i = (update_task ^^ ticks_in ops) (schedulerTasks ?s ! i) \<and>
         calls_from i (run ops ?s) = calls_from i ?s"
    using Cons.IH[OF _ len occ] Cons.prems(1) by simp
  have step: "(update_task ^^ ticks_in ops) (slot_step a (schedulerTasks s ! i)) =
        (update_task ^^ ticks_in (a # ops)) (schedulerTasks s ! i)"
    using nd by (cases a) (simp_all add: ticks_in_Cons funpow_swap1)
  show ?case using IH slot step nd by (simp add: run_Cons api_calls_from)
qed

lemma countdown_pred: "d \<noteq> 1 \<Longrightarrow> countdown (d - 1) = countdown d - 1"
proof (cases "d = 0")
  case True
  have "unat (- 1 :: 32 word) = 2 ^ 32 - 1" by (simp add: unsigned_minus_1_eq_mask mask_eq_exp_minus_1)
  with True show ?thesis by (simp add: countdown_def)
next
  case False
  assume "d \<noteq> 1"
  with False have "d - 1 \<noteq> 0" by simp
  moreover have "unat (d - 1) = unat d - 1" using False by (simp add: unat_minus_one)
  ultimately show ?thesis using False by (simp add: countdown_def)
qed

lemma countdown_1: "countdown d = 1 \<longleftrightarrow> d = 1"
proof -
  have "unat d = 1 \<longleftrightarrow> d = 1" by (metis unat_1 word_unat_eq_iff)
  then show ?thesis by (simp add: countdown_def)
qed

lemma run_before_expiry:
  assumes "\<forall>a\<in>set ops. keeps i a"
    and "i < length (schedulerTasks s)" and "pTask (schedulerTasks s ! i) \<noteq> 0"
    and "runMe (schedulerTasks s ! i) = 0"
    and "ticks_in ops < countdown (delay (schedulerTasks s ! i))"
  shows "schedulerTasks (run ops s) ! i =
           (schedulerTasks s ! i)\<lparr>delay := delay (schedulerTasks s ! i) - of_nat (ticks_in ops)\<rparr> \<and>
         calls_from i (run ops s) = calls_from i s"
  using assms
proof (induction ops arbitrary: s)
  case Nil
  show ?case by (simp add: run_Nil ticks_in_Nil)
next
  case (Cons a ops)
  let ?s = "api_call a s"
  let ?t = "schedulerTasks s ! i"
  have k: "keeps i a" using Cons.prems(1) by simp
  have slot: "schedulerTasks ?s ! i = slot_step a ?t"
    using api_slot[OF k Cons.prems(2,3)] .
  have len: "i < length (schedulerTasks ?s)" using Cons.prems(2) by (simp add: api_call_length)
  show ?case
  proof (cases "is_tick a")
    case True
    then obtain tk where a: "a = TickStep tk" by (cases a) simp_all
    have lt: "Suc (ticks_in ops) < countdown (delay ?t)"
      using Cons.prems(5) a by (simp add: ticks_in_Cons)
    then have "countdown (delay ?t) \<noteq> 1" by simp
    then have d1: "delay ?t \<noteq> 1" using countdown_1[of "delay ?t"] by blast
    have st: "schedulerTasks ?s ! i = ?t\<lparr>delay := delay ?t - 1\<rparr>"
      using slot a d1 Cons.prems(3) by (simp add: update_task_occupied)
    have "ticks_in ops < countdown (delay (schedulerTasks ?s ! i))"
      using lt st d1 by (simp add: countdown_pred)
    then have IH: "schedulerTasks (run ops ?s) ! i =
           (schedulerTasks ?s ! i)\<lparr>delay := delay (schedulerTasks ?s ! i) - of_nat (ticks_in ops)\<rparr> \<and>
         calls_from i (run ops ?s) = calls_from i ?s"
      using Cons.IH[OF _ len] Cons.prems(1,3,4) st by simp
    have cf: "calls_from i ?s = calls_from i s"
      using a by (simp add: calls_from_def update_calls)
    show ?thesis using IH st a cf
      by (simp add: run_Cons ticks_in_Cons)
  next
    case False
    have st: "schedulerTasks ?s ! i = ?t"
      using slot False Cons.prems(4) by (cases a) (simp_all add: dispatch_task_idle)
    have cf: "calls_from i ?s = calls_from i s"
    proof (cases "is_dispatch a")
      case True
      then obtain tk where a: "a = DispatchOnce tk" by (cases a) simp_all
      show ?thesis using Cons.prems(2,4) a
        by (simp add: calls_from_dispatch call_of_def)
    next
      case False
      then show ?thesis by (rule api_calls_from)
    qed
    have IH: "schedulerTasks (run ops ?s) ! i =
           (schedulerTasks ?s ! i)\<lparr>delay := delay (schedulerTasks ?s ! i) - of_nat (ticks_in ops)\<rparr> \<and>
         calls_from i (run ops ?s) = calls_from i ?s"
      using Cons.IH[OF _ len] Cons.prems st False by (simp add: ticks_in_Cons)
    show ?thesis using IH st cf False by (simp add: run_Cons ticks_in_Cons)
  qed
qed

lemma run_periodic:
  assumes "\<forall>a\<in>set ops. keeps i a"
    and "i < length (schedulerTasks s)" and "pTask (schedulerTasks s ! i) \<noteq> 0"
    and "period (schedulerTasks s ! i) \<noteq> 0"
  shows "pTask (schedulerTasks (run ops s) ! i) = pTask (schedulerTasks s ! i) \<and>
         task_context (schedulerTasks (run ops s) ! i) = task_context (schedulerTasks s ! i) \<and>
         period (schedulerTasks (run ops s) ! i) = period (schedulerTasks s ! i) \<and>
         delay (schedulerTasks (run ops s) ! i) =
           of_nat (remaining (delay (schedulerTasks s ! i)) (period (schedulerTasks s ! i))
                     (ticks_in ops))"
  using assms(1)
proof (induction ops rule: rev_induct)
  case Nil
  show ?case by (simp add: run_Nil ticks_in_Nil remaining_0 of_nat_countdown)
next
  case (snoc a ops)
  let ?s = "run ops s"
  let ?t = "schedulerTasks s ! i"
  let ?u = "schedulerTasks ?s ! i"
  let ?r = "remaining (delay ?t) (period ?t) (ticks_in ops)"
  have IH: "pTask ?u = pTask ?t" "task_context ?u = task_context ?t" "period ?u = period ?t"
    "delay ?u = of_nat ?r"
    using snoc by simp_all
  have k: "keeps i a" using snoc.prems by simp
  have len: "i < length (schedulerTasks ?s)" using assms(2) by (simp add: run_length)
  have occ: "pTask ?u \<noteq> 0" using IH(1) assms(3) by simp
  have slot: "schedulerTasks (run (ops @ [a]) s) ! i = slot_step a ?u"
    using api_slot[OF k len occ] by (simp add: run_append run_Cons run_Nil)
  have one: "(of_nat ?r :: 32 word) = 1 \<longleftrightarrow> ?r = 1"
    using of_nat_eq_1[OF remaining_pos remaining_le] .
  have pred: "(of_nat ?r :: 32 word) - 1 = of_nat (?r - 1)"
    by (rule of_nat_pred) (rule remaining_pos)
  show ?case
  proof (cases a)
    case (TickStep tk)
    then show ?thesis
      unfolding slot using IH occ one pred
      by (simp add: update_task_occupied ticks_in_append ticks_in_Cons ticks_in_Nil
          remaining_Suc of_nat_countdown)
  next
    case (DispatchOnce tk)
    then show ?thesis
      unfolding slot using IH assms(4)
      by (simp add: dispatch_task_def ticks_in_append ticks_in_Cons ticks_in_Nil)
  qed (use IH slot in \<open>simp_all add: ticks_in_append ticks_in_Cons ticks_in_Nil\<close>)
qed

lemma run_free:
  assumes "\<forall>a\<in>set ops. \<not> is_add a"
    and "i < length (schedulerTasks s)" and "schedulerTasks s ! i = zero_task"
  shows "schedulerTasks (run ops s) ! i = zero_task \<and> calls_from i (run ops s) = calls_from i s"
  using assms
proof (induction ops arbitrary: s)
  case Nil
  then show ?case by (simp add: run_Nil)
next
  case (Cons a ops)
  let ?s = "api_call a s"
  have na: "\<not> is_add a" using Cons.prems(1) by simp
  have len: "i < length (schedulerTasks ?s)" using Cons.prems(2) by (simp add: api_call_length)
  have z: "schedulerTasks ?s ! i = zero_task"
    using na Cons.prems(2,3)
    by (cases a)
      (auto simp add: delete_tasks modify_tasks update_tasks dispatch_tasks update_task_zero
        dispatch_task_zero nth_list_update zero_task_fields)
  have cf: "calls_from i ?s = calls_from i s"
  proof (cases "is_dispatch a")
    case True
    then obtain tk where a: "a = DispatchOnce tk" by (cases a) simp_all
    show ?thesis using Cons.prems(2,3) a
      by (simp add: calls_from_dispatch call_of_def zero_task_fields)
  next
    case False
    then show ?thesis by (rule api_calls_from)
  qed
  show ?case using Cons.IH[OF _ len z] Cons.prems(1) cf by (simp add: run_Cons)
qed

lemma of_nat_remaining_before:
  "n < countdown d \<Longrightarrow> (of_nat (remaining d p n) :: 32 word) = d - of_nat n"
  by (simp add: remaining_before of_nat_diff of_nat_countdown)

lemma remaining_at_expiry: "remaining d p (countdown d) = countdown p"
  by (simp add: remaining_def)

lemma firings_at_expiry: "firings d p (countdown d) = 1"
  by (simp add: firings_def)

lemma countdown_ticks:
  assumes "\<forall>a\<in>set ops. keeps i a \<and> \<not> is_dispatch a"
    and "i < length (schedulerTasks s)" and "pTask (schedulerTasks s ! i) \<noteq> 0"
    and "ticks_in ops \<le> countdown (delay (schedulerTasks s ! i))"
  shows "schedulerTasks (run ops s) ! i =
           (if ticks_in ops < countdown (delay (schedulerTasks s ! i))
            then (schedulerTasks s ! i)
                   \<lparr>delay := delay (schedulerTasks s ! i) - of_nat (ticks_in ops)\<rparr>
            else (schedulerTasks s ! i)
                   \<lparr>delay := period (schedulerTasks s ! i),
                    runMe := runMe (schedulerTasks s ! i) + 1\<rparr>)"
proof -
  let ?t = "schedulerTasks s ! i"
  have eq: "schedulerTasks (run ops s) ! i =
      ?t\<lparr>delay := of_nat (remaining (delay ?t) (period ?t) (ticks_in ops)),
         runMe := runMe ?t + of_nat (firings (delay ?t) (period ?t) (ticks_in ops))\<rparr>"
    using run_no_dispatch[OF assms(1,2,3)] ticks_closed[OF assms(3)] by simp
  show ?thesis
  proof (cases "ticks_in ops < countdown (delay ?t)")
    case True
    then show ?thesis
      unfolding eq by (simp add: of_nat_remaining_before firings_before)
  next
    case False
    with assms(4) have "ticks_in ops = countdown (delay ?t)" by simp
    then show ?thesis
      unfolding eq by (simp add: remaining_at_expiry firings_at_expiry of_nat_countdown)
  qed
qed

subsection \<open>One tick on the table\<close>

lemma zero_less_max_word: "(0 :: 32 word) < - 1"
  by (simp add: word_gt_0)

lemma update_slot_nth:
  "i < length (schedulerTasks s) \<Longrightarrow>
     schedulerTasks (schedulerUpdate tk s) ! i = update_task (schedulerTasks s ! i)"
  by (simp add: update_tasks)

lemma add_registers:
  assumes "schedulerAddTask f c d p s = (i, s1)" "i < SCHEDULER_MAX_TASKS s"
  shows "i < length (schedulerTasks s1)"
    and "schedulerTasks s1 ! i = \<lparr>pTask = f, task_context = c, delay = d, period = p, runMe = 0\<rparr>"
    and "calls s1 = calls s"
proof -
  have i: "i = find_gap (schedulerTasks s) 0"
    using assms by (auto simp add: schedulerAddTask_def Let_def split: if_splits)
  have s1: "s1 = snd (schedulerAddTask f c d p s)" using assms(1) by simp
  have len: "i < length (schedulerTasks s)" using assms(2) by (simp add: SCHEDULER_MAX_TASKS_def)
  show "i < length (schedulerTasks s1)" using len by (simp add: s1 add_tasks)
  show "schedulerTasks s1 ! i = \<lparr>pTask = f, task_context = c, delay = d, period = p, runMe = 0\<rparr>"
    using len by (simp add: s1 add_tasks i [symmetric])
  show "calls s1 = calls s" by (simp add: s1 add_calls)
qed

lemma of_nat_unat_pred: "d \<noteq> 0 \<Longrightarrow> (of_nat (unat d - Suc 0) :: 32 word) = d - 1"
proof -
  assume "d \<noteq> 0"
  then have "0 < unat d" by (simp add: unat_gt_0)
  from of_nat_pred[OF this] show ?thesis by simp
qed

lemma ticks_in_none: "\<forall>a\<in>set ops. \<not> is_tick a \<Longrightarrow> ticks_in ops = 0"
  by (simp add: ticks_in_def)

subsection \<open>Due slots have a function\<close>

lemma update_task_due: "runMe (update_task t) \<noteq> 0 \<Longrightarrow> runMe t \<noteq> 0 \<or> pTask t \<noteq> 0"
  by (auto simp add: update_task_def Let_def split: if_splits)

lemma dispatch_task_due:
  "runMe (dispatch_task t) \<noteq> 0 \<Longrightarrow> runMe t \<noteq> 0 \<and> pTask (dispatch_task t) = pTask t"
  by (auto simp add: dispatch_task_def zero_task_fields split: if_splits)

lemma api_call_due:
  assumes inv: "\<forall>t\<in>set (schedulerTasks s). runMe t \<noteq> 0 \<longrightarrow> pTask t \<noteq> 0"
  shows "\<forall>t\<in>set (schedulerTasks (api_call a s)). runMe t \<noteq> 0 \<longrightarrow> pTask t \<noteq> 0"
proof (cases a)
  case (AddTask f c d p)
  show ?thesis
  proof
    fix t assume "t \<in> set (schedulerTasks (api_call a s))"
    then have "t \<in> insert \<lparr>pTask = f, task_context = c, delay = d, period = p, runMe = 0\<rparr>
        (set (schedulerTasks s))"
      using set_update_subset_insert unfolding AddTask by (fastforce simp add: add_tasks)
    then show "runMe t \<noteq> 0 \<longrightarrow> pTask t \<noteq> 0" using inv by auto
  qed
next
  case (DeleteTask j)
  show ?thesis
  proof
    fix t assume "t \<in> set (schedulerTasks (api_call a s))"
    then have "t \<in> insert zero_task (set (schedulerTasks s))"
      using set_update_subset_insert unfolding DeleteTask
      by (fastforce simp add: delete_tasks split: if_splits)
    then show "runMe t \<noteq> 0 \<longrightarrow> pTask t \<noteq> 0" using inv by (auto simp add: zero_task_fields)
  qed
next
  case (ModifyTaskPeriod j p)
  show ?thesis
  proof
    fix t assume t: "t \<in> set (schedulerTasks (api_call a s))"
    show "runMe t \<noteq> 0 \<longrightarrow> pTask t \<noteq> 0"
    proof (cases "j < length (schedulerTasks s) \<and> pTask (schedulerTasks s ! j) \<noteq> 0")
      case True
      then have "t \<in> insert ((schedulerTasks s ! j)\<lparr>period := p\<rparr>) (set (schedulerTasks s))"
        using t set_update_subset_insert unfolding ModifyTaskPeriod
        by (fastforce simp add: modify_tasks)
      then show ?thesis using inv True by auto
    next
      case False
      then show ?thesis using t inv unfolding ModifyTaskPeriod by (auto simp add: modify_tasks)
    qed
  qed
next
  case (TickStep tk)
  show ?thesis
    using inv update_task_due unfolding TickStep
    by (fastforce simp add: update_tasks update_task_pTask)
next
  case (DispatchOnce tk)
  show ?thesis
    using inv dispatch_task_due unfolding DispatchOnce
    by (fastforce simp add: dispatch_tasks)
qed

lemma call_of_fn:
  assumes "\<forall>t\<in>set ts. runMe t \<noteq> 0 \<longrightarrow> pTask t \<noteq> 0" "i < length ts"
  shows "\<forall>c\<in>set (call_of tk ts i). call_fn c \<noteq> 0"
  using assms by (auto simp add: call_of_def)

lemma api_call_log:
  assumes inv: "\<forall>t\<in>set (schedulerTasks s). runMe t \<noteq> 0 \<longrightarrow> pTask t \<noteq> 0"
  shows "\<exists>new. calls (api_call a s) = calls s @ new \<and> (\<forall>c\<in>set new. call_fn c \<noteq> 0)"
proof (cases a)
  case (DispatchOnce tk)
  have "\<forall>c\<in>set (dispatch_calls tk (schedulerTasks s)). call_fn c \<noteq> 0"
    using call_of_fn[OF inv] by (auto simp add: dispatch_calls_def)
  then show ?thesis unfolding DispatchOnce by (simp add: dispatch_calls)
qed (simp_all add: add_calls delete_calls modify_calls update_calls)

lemma run_due:
  assumes "\<forall>t\<in>set (schedulerTasks s). runMe t \<noteq> 0 \<longrightarrow> pTask t \<noteq> 0"
  shows "(\<forall>t\<in>set (schedulerTasks (run ops s)). runMe t \<noteq> 0 \<longrightarrow> pTask t \<noteq> 0) \<and>
         (\<exists>new. calls (run ops s) = calls s @ new \<and> (\<forall>c\<in>set new. call_fn c \<noteq> 0))"
  using assms
proof (induction ops arbitrary: s)
  case Nil
  then show ?case by (simp add: run_Nil)
next
  case (Cons a ops)
  let ?s = "api_call a s"
  have inv': "\<forall>t\<in>set (schedulerTasks ?s). runMe t \<noteq> 0 \<longrightarrow> pTask t \<noteq> 0"
    using api_call_due[OF Cons.prems] .
  obtain n1 where n1: "calls ?s = calls s @ n1" "\<forall>c\<in>set n1. call_fn c \<noteq> 0"
    using api_call_log[OF Cons.prems] by blast
  obtain n2 where n2: "calls (run ops ?s) = calls ?s @ n2" "\<forall>c\<in>set n2. call_fn c \<noteq> 0"
    using Cons.IH[OF inv'] by blast
  have "calls (run (a # ops) s) = calls s @ (n1 @ n2) \<and> (\<forall>c\<in>set (n1 @ n2). call_fn c \<noteq> 0)"
    using n1 n2 by (auto simp add: run_Cons)
  then have "\<exists>new. calls (run (a # ops) s) = calls s @ new \<and> (\<forall>c\<in>set new. call_fn c \<noteq> 0)"
    by blast
  then show ?case using Cons.IH[OF inv'] by (simp add: run_Cons)
qed

subsection \<open>Registration on a fresh table\<close>

lemma ticks_only:
  "(\<forall>a\<in>set (replicate n (TickStep tk)). keeps i a \<and> \<not> is_dispatch a) \<and>
   ticks_in (replicate n (TickStep tk)) = n"
  by (simp add: ticks_in_def)

lemma first_registration:
  "schedulerAddTask f c d p (schedulerInit \<lparr>schedulerTasks = [zero_task], errorCode = 0, calls = []\<rparr>) =
     (0, snd (schedulerAddTask f c d p
        (schedulerInit \<lparr>schedulerTasks = [zero_task], errorCode = 0, calls = []\<rparr>))) \<and>
   0 < SCHEDULER_MAX_TASKS (schedulerInit \<lparr>schedulerTasks = [zero_task], errorCode = 0, calls = []\<rparr>) \<and>
   calls (schedulerInit \<lparr>schedulerTasks = [zero_task], errorCode = 0, calls = []\<rparr>) = []"
proof -
  let ?s0 = "schedulerInit \<lparr>schedulerTasks = [zero_task], errorCode = 0, calls = []\<rparr>"
  have ts: "schedulerTasks ?s0 = [zero_task]" by (simp add: init_tasks)
  have g: "find_gap (schedulerTasks ?s0) 0 = 0"
    by (simp add: ts find_gap.simps zero_task_fields)
  have n: "SCHEDULER_MAX_TASKS ?s0 = 1" by (simp add: SCHEDULER_MAX_TASKS_def ts)
  have "fst (schedulerAddTask f c d p ?s0) = 0"
    using g n by (simp add: schedulerAddTask_def Let_def)
  then have "schedulerAddTask f c d p ?s0 = (0, snd (schedulerAddTask f c d p ?s0))"
    by (metis prod.collapse)
  then show ?thesis using n by (simp add: init_calls)
qed

section \<open>The registry\<close>

text \<open>
  Claim C7. \<open>schedulerDeleteTask ix\<close> returns the error code \<open>-1\<close> and changes nothing when
  \<open>ix\<close> is not below the capacity (invalid index); returns \<open>-1\<close> and sets \<open>errorCode\<close> to
  \<open>2\<close> when slot \<open>ix\<close> has no function (slot empty); and otherwise returns \<open>0\<close>. In the
  last two cases slot \<open>ix\<close> is all zeroes afterwards. No other slot is altered in any
  case. After a successful delete, any number of further deletes of \<open>ix\<close> leave the table
  as the first one left it, and each of them reports the error \<open>-1\<close> with \<open>errorCode = 2\<close>.
\<close>

theorem deleteTask_cases:
  "(SCHEDULER_MAX_TASKS s \<le> ix \<longrightarrow> schedulerDeleteTask ix s = (- 1, s)) \<and>
   (ix < SCHEDULER_MAX_TASKS s \<and> pTask (schedulerTasks s ! ix) = 0 \<longrightarrow>
      schedulerDeleteTask ix s =
        (- 1, s\<lparr>schedulerTasks := (schedulerTasks s)[ix := zero_task], errorCode := 2\<rparr>)) \<and>
   (ix < SCHEDULER_MAX_TASKS s \<and> pTask (schedulerTasks s ! ix) \<noteq> 0 \<longrightarrow>
      schedulerDeleteTask ix s =
        (0, s\<lparr>schedulerTasks := (schedulerTasks s)[ix := zero_task]\<rparr>)) \<and>
   (ix < SCHEDULER_MAX_TASKS s \<longrightarrow>
      schedulerTasks (snd (schedulerDeleteTask ix s)) ! ix = zero_task) \<and>
   (\<forall>j. j \<noteq> ix \<longrightarrow>
      schedulerTasks (snd (schedulerDeleteTask ix s)) ! j = schedulerTasks s ! j) \<and>
   (ix < SCHEDULER_MAX_TASKS s \<and> pTask (schedulerTasks s ! ix) \<noteq> 0 \<longrightarrow>
      (\<forall>n. let s1 = snd (schedulerDeleteTask ix s);
               sn = ((\<lambda>s'. snd (schedulerDeleteTask ix s')) ^^ n) s1
           in schedulerTasks sn = schedulerTasks s1 \<and>
              fst (schedulerDeleteTask ix sn) = - 1 \<and>
              errorCode (snd (schedulerDeleteTask ix sn)) = 2 \<and>
              schedulerTasks (snd (schedulerDeleteTask ix sn)) = schedulerTasks s1))"
proof -
  let ?del = "\<lambda>s'. snd (schedulerDeleteTask ix s')"
  have c1: "SCHEDULER_MAX_TASKS s \<le> ix \<longrightarrow> schedulerDeleteTask ix s = (- 1, s)"
    by (simp add: schedulerDeleteTask_def)
  have c2: "ix < SCHEDULER_MAX_TASKS s \<and> pTask (schedulerTasks s ! ix) = 0 \<longrightarrow>
      schedulerDeleteTask ix s =
        (- 1, s\<lparr>schedulerTasks := (schedulerTasks s)[ix := zero_task], errorCode := 2\<rparr>)"
    by (simp add: schedulerDeleteTask_def)
  have c3: "ix < SCHEDULER_MAX_TASKS s \<and> pTask (schedulerTasks s ! ix) \<noteq> 0 \<longrightarrow>
      schedulerDeleteTask ix s = (0, s\<lparr>schedulerTasks := (schedulerTasks s)[ix := zero_task]\<rparr>)"
    by (simp add: schedulerDeleteTask_def)
  have c4: "ix < SCHEDULER_MAX_TASKS s \<longrightarrow>
      schedulerTasks (snd (schedulerDeleteTask ix s)) ! ix = zero_task"
    by (simp add: delete_tasks SCHEDULER_MAX_TASKS_def)
  have c5: "\<forall>j. j \<noteq> ix \<longrightarrow>
      schedulerTasks (snd (schedulerDeleteTask ix s)) ! j = schedulerTasks s ! j"
    by (simp add: delete_tasks)
  have c6: "schedulerTasks sn = schedulerTasks (?del s) \<and>
            fst (schedulerDeleteTask ix sn) = - 1 \<and>
            errorCode (snd (schedulerDeleteTask ix sn)) = 2 \<and>
            schedulerTasks (snd (schedulerDeleteTask ix sn)) = schedulerTasks (?del s)"
    if occ: "ix < SCHEDULER_MAX_TASKS s" and sn: "sn = (?del ^^ n) (?del s)" for n sn
  proof -
    have ix: "ix < length (schedulerTasks s)" using occ by (simp add: SCHEDULER_MAX_TASKS_def)
    have same: "schedulerTasks ((?del ^^ m) (?del s)) = schedulerTasks (?del s)" for m
    proof (induction m)
      case 0
      show ?case by simp
    next
      case (Suc m)
      then show ?case using ix by (simp add: delete_tasks)
    qed
    have t: "schedulerTasks sn = (schedulerTasks s)[ix := zero_task]"
      using same[of n] sn ix by (simp add: delete_tasks)
    then have empty: "pTask (schedulerTasks sn ! ix) = 0" and len: "ix < SCHEDULER_MAX_TASKS sn"
      using ix by (simp_all add: zero_task_def SCHEDULER_MAX_TASKS_def)
    show ?thesis
      using t empty len ix
      by (simp add: schedulerDeleteTask_def delete_tasks SCHEDULER_MAX_TASKS_def)
  qed
  have c6': "ix < SCHEDULER_MAX_TASKS s \<and> pTask (schedulerTasks s ! ix) \<noteq> 0 \<longrightarrow>
      (\<forall>n. let s1 = snd (schedulerDeleteTask ix s);
               sn = ((\<lambda>s'. snd (schedulerDeleteTask ix s')) ^^ n) s1
           in schedulerTasks sn = schedulerTasks s1 \<and>
              fst (schedulerDeleteTask ix sn) = - 1 \<and>
              errorCode (snd (schedulerDeleteTask ix sn)) = 2 \<and>
              schedulerTasks (snd (schedulerDeleteTask ix sn)) = schedulerTasks s1)"
    unfolding Let_def using c6 by blast
  show ?thesis
    by (intro conjI c1 c2 c3 c4 c5 c6')
qed


theorem deleteTask_cases_witness:
  "schedulerDeleteTask 5 \<lparr>schedulerTasks = [zero_task, zero_task\<lparr>pTask := 7, delay := 3\<rparr>],
      errorCode = 0, calls = []\<rparr> =
     (- 1, \<lparr>schedulerTasks = [zero_task, zero_task\<lparr>pTask := 7, delay := 3\<rparr>],
      errorCode = 0, calls = []\<rparr>)
   \<and> schedulerDeleteTask 0 \<lparr>schedulerTasks = [zero_task, zero_task\<lparr>pTask := 7, delay := 3\<rparr>],
      errorCode = 0, calls = []\<rparr> =
     (- 1, \<lparr>schedulerTasks = [zero_task, zero_task\<lparr>pTask := 7, delay := 3\<rparr>],
      errorCode = 2, calls = []\<rparr>)
   \<and> schedulerDeleteTask 1 \<lparr>schedulerTasks = [zero_task, zero_task\<lparr>pTask := 7, delay := 3\<rparr>],
      errorCode = 0, calls = []\<rparr> =
     (0, \<lparr>schedulerTasks = [zero_task, zero_task], errorCode = 0, calls = []\<rparr>)
   \<and> fst (schedulerDeleteTask 1 (snd (schedulerDeleteTask 1
        \<lparr>schedulerTasks = [zero_task, zero_task\<lparr>pTask := 7, delay := 3\<rparr>],
         errorCode = 0, calls = []\<rparr>))) = - 1"
proof -
  let ?s = "\<lparr>schedulerTasks = [zero_task, zero_task\<lparr>pTask := 7, delay := 3\<rparr>],
      errorCode = 0, calls = []\<rparr>"
  have n: "SCHEDULER_MAX_TASKS ?s = 2" by (simp add: SCHEDULER_MAX_TASKS_def)
  have p0: "pTask (schedulerTasks ?s ! 0) = 0" by (simp add: zero_task_def)
  have p1: "pTask (schedulerTasks ?s ! 1) \<noteq> 0" by simp
  have a: "schedulerDeleteTask 5 ?s = (- 1, ?s)"
    using deleteTask_cases [of ?s 5, THEN conjunct1] n by simp
  have b: "schedulerDeleteTask 0 ?s =
      (- 1, ?s\<lparr>schedulerTasks := (schedulerTasks ?s)[0 := zero_task], errorCode := 2\<rparr>)"
    using deleteTask_cases [of ?s 0, THEN conjunct2, THEN conjunct1] n p0 by simp
  have c: "schedulerDeleteTask 1 ?s =
      (0, ?s\<lparr>schedulerTasks := (schedulerTasks ?s)[1 := zero_task]\<rparr>)"
    using deleteTask_cases [of ?s 1, THEN conjunct2, THEN conjunct2, THEN conjunct1] n p1
    by simp
  have d: "fst (schedulerDeleteTask 1 (snd (schedulerDeleteTask 1 ?s))) = - 1"
    using deleteTask_cases [of ?s 1, THEN conjunct2, THEN conjunct2, THEN conjunct2,
        THEN conjunct2, THEN conjunct2, rule_format, of 0] n p1
    by (simp add: Let_def)
  show ?thesis using a b c d by simp
qed

text \<open>
  Claim C3. When every slot of the table is occupied, \<open>schedulerAddTask\<close> returns the
  sentinel \<open>SCHEDULER_MAX_TASKS\<close>, sets \<open>errorCode\<close> (to \<open>2\<close>) and leaves every slot as it
  was. Whatever sequence of calls is made, the capacity of the table stays the same and the
  number of occupied slots never exceeds it.
\<close>

theorem addTask_table_full:
  "((\<forall>i<SCHEDULER_MAX_TASKS s. occupied (schedulerTasks s ! i)) \<longrightarrow>
      schedulerAddTask f c d p s = (SCHEDULER_MAX_TASKS s, s\<lparr>errorCode := 2\<rparr>) \<and>
      errorCode (snd (schedulerAddTask f c d p s)) = 2 \<and>
      schedulerTasks (snd (schedulerAddTask f c d p s)) = schedulerTasks s) \<and>
   SCHEDULER_MAX_TASKS (run ops s) = SCHEDULER_MAX_TASKS s \<and>
   length (filter occupied (schedulerTasks (run ops s))) \<le> SCHEDULER_MAX_TASKS s"
proof -
  have full: "schedulerAddTask f c d p s = (SCHEDULER_MAX_TASKS s, s\<lparr>errorCode := 2\<rparr>)"
    if "\<forall>i<SCHEDULER_MAX_TASKS s. occupied (schedulerTasks s ! i)"
  proof -
    have "find_gap (schedulerTasks s) 0 = length (schedulerTasks s)"
      using that by (intro find_gap_full) (simp add: occupied_def SCHEDULER_MAX_TASKS_def)
    then show ?thesis by (simp add: schedulerAddTask_def SCHEDULER_MAX_TASKS_def)
  qed
  have cap: "SCHEDULER_MAX_TASKS (run ops s) = SCHEDULER_MAX_TASKS s"
    by (simp add: SCHEDULER_MAX_TASKS_def run_length)
  have "length (filter occupied (schedulerTasks (run ops s))) \<le> length (schedulerTasks (run ops s))"
    by (rule length_filter_le)
  then have bound: "length (filter occupied (schedulerTasks (run ops s))) \<le> SCHEDULER_MAX_TASKS s"
    by (simp add: SCHEDULER_MAX_TASKS_def run_length)
  show ?thesis using full cap bound by simp
qed

theorem addTask_table_full_witness:
  "schedulerAddTask 9 0 1 1
     \<lparr>schedulerTasks = [\<lparr>pTask = 7, task_context = 0, delay = 5, period = 0, runMe = 0\<rparr>],
      errorCode = 0, calls = []\<rparr> =
   (1, \<lparr>schedulerTasks = [\<lparr>pTask = 7, task_context = 0, delay = 5, period = 0, runMe = 0\<rparr>],
      errorCode = 2, calls = []\<rparr>)"
proof -
  let ?s = "\<lparr>schedulerTasks = [\<lparr>pTask = 7, task_context = 0, delay = 5, period = 0, runMe = 0\<rparr>],
      errorCode = 0, calls = []\<rparr>"
  have h: "\<forall>i<SCHEDULER_MAX_TASKS ?s. occupied (schedulerTasks ?s ! i)"
    by (simp add: SCHEDULER_MAX_TASKS_def occupied_def)
  show ?thesis
    using addTask_table_full [of ?s 9 0 1 1 "[]", THEN conjunct1, THEN mp, OF h]
    by (simp add: SCHEDULER_MAX_TASKS_def)
qed

text \<open>
  Claim C4. When slot \<open>i\<close> is free and every slot below it is occupied, \<open>schedulerAddTask\<close>
  writes slot \<open>i\<close> with exactly the given function, context, delay and period and with
  \<open>runMe = 0\<close>, changes nothing else, and returns \<open>i\<close>. In particular, after
  \<open>schedulerDeleteTask ix\<close> has freed slot \<open>ix\<close>, the next \<open>schedulerAddTask\<close> succeeds
  with an index that is at most \<open>ix\<close>, and with \<open>ix\<close> itself when every slot below \<open>ix\<close>
  is occupied.
\<close>

theorem addTask_lowest_free:
  "(i < SCHEDULER_MAX_TASKS s \<and> \<not> occupied (schedulerTasks s ! i) \<and>
      (\<forall>j<i. occupied (schedulerTasks s ! j)) \<longrightarrow>
      schedulerAddTask f c d p s =
        (i, s\<lparr>schedulerTasks := (schedulerTasks s)
                 [i := \<lparr>pTask = f, task_context = c, delay = d, period = p, runMe = 0\<rparr>]\<rparr>)) \<and>
   (ix < SCHEDULER_MAX_TASKS s \<longrightarrow>
      fst (schedulerAddTask f c d p (snd (schedulerDeleteTask ix s))) \<le> ix) \<and>
   (ix < SCHEDULER_MAX_TASKS s \<and> (\<forall>j<ix. occupied (schedulerTasks s ! j)) \<longrightarrow>
      fst (schedulerAddTask f c d p (snd (schedulerDeleteTask ix s))) = ix)"
proof -
  have low: "schedulerAddTask f c d p s' =
        (i, s'\<lparr>schedulerTasks := (schedulerTasks s')
                 [i := \<lparr>pTask = f, task_context = c, delay = d, period = p, runMe = 0\<rparr>]\<rparr>)"
    if "i < SCHEDULER_MAX_TASKS s'" "\<not> occupied (schedulerTasks s' ! i)"
      "\<forall>j<i. occupied (schedulerTasks s' ! j)" for i s'
  proof -
    have "find_gap (schedulerTasks s') 0 = i"
      using that by (intro find_gap_least) (simp_all add: occupied_def SCHEDULER_MAX_TASKS_def)
    then show ?thesis
      using that(1) by (simp add: schedulerAddTask_def SCHEDULER_MAX_TASKS_def task_overwrite)
  qed
  have reuse: "fst (schedulerAddTask f c d p (snd (schedulerDeleteTask ix s))) = ix"
    if ix: "ix < SCHEDULER_MAX_TASKS s" and below: "\<forall>j<ix. occupied (schedulerTasks s ! j)"
  proof -
    let ?s = "snd (schedulerDeleteTask ix s)"
    have t: "schedulerTasks ?s = (schedulerTasks s)[ix := zero_task]"
      using ix by (simp add: delete_tasks SCHEDULER_MAX_TASKS_def)
    have 1: "ix < SCHEDULER_MAX_TASKS ?s" using ix t by (simp add: SCHEDULER_MAX_TASKS_def)
    have 2: "\<not> occupied (schedulerTasks ?s ! ix)"
      using ix t by (simp add: SCHEDULER_MAX_TASKS_def occupied_def zero_task_fields)
    have 3: "\<forall>j<ix. occupied (schedulerTasks ?s ! j)" using below t by simp
    show ?thesis using low[OF 1 2 3] by simp
  qed
  have bound: "fst (schedulerAddTask f c d p (snd (schedulerDeleteTask ix s))) \<le> ix"
    if ix: "ix < SCHEDULER_MAX_TASKS s"
  proof -
    let ?ts = "schedulerTasks (snd (schedulerDeleteTask ix s))"
    have t: "?ts = (schedulerTasks s)[ix := zero_task]"
      using ix by (simp add: delete_tasks SCHEDULER_MAX_TASKS_def)
    have free: "pTask (?ts ! ix) = 0"
      using ix t by (simp add: SCHEDULER_MAX_TASKS_def zero_task_fields)
    have "\<not> ix < find_gap ?ts 0" using find_gap_occupied[of 0 ix ?ts] free by auto
    moreover have "find_gap ?ts 0 \<noteq> length ?ts \<or> length ?ts \<le> ix"
      using calculation by auto
    ultimately show ?thesis
      by (auto simp add: schedulerAddTask_def SCHEDULER_MAX_TASKS_def Let_def)
  qed
  show ?thesis using low[of i s] reuse bound by blast
qed

theorem addTask_lowest_free_witness:
  "schedulerAddTask 9 4 300 1000
     \<lparr>schedulerTasks = [\<lparr>pTask = 7, task_context = 0, delay = 5, period = 0, runMe = 0\<rparr>,
        zero_task, zero_task], errorCode = 0, calls = []\<rparr> =
   (1, \<lparr>schedulerTasks = [\<lparr>pTask = 7, task_context = 0, delay = 5, period = 0, runMe = 0\<rparr>,
        \<lparr>pTask = 9, task_context = 4, delay = 300, period = 1000, runMe = 0\<rparr>, zero_task],
        errorCode = 0, calls = []\<rparr>) \<and>
   fst (schedulerAddTask 9 4 300 1000 (snd (schedulerDeleteTask 0
     \<lparr>schedulerTasks = [\<lparr>pTask = 7, task_context = 0, delay = 5, period = 0, runMe = 0\<rparr>,
        zero_task, zero_task], errorCode = 0, calls = []\<rparr>))) = 0"
proof -
  let ?s = "\<lparr>schedulerTasks = [\<lparr>pTask = 7, task_context = 0, delay = 5, period = 0, runMe = 0\<rparr>,
        zero_task, zero_task], errorCode = 0, calls = []\<rparr>"
  have h: "1 < SCHEDULER_MAX_TASKS ?s \<and> \<not> occupied (schedulerTasks ?s ! 1) \<and>
      (\<forall>j<1. occupied (schedulerTasks ?s ! j))"
    by (simp add: SCHEDULER_MAX_TASKS_def occupied_def zero_task_fields)
  have h': "0 < SCHEDULER_MAX_TASKS ?s \<and> (\<forall>j<0. occupied (schedulerTasks ?s ! j))"
    by (simp add: SCHEDULER_MAX_TASKS_def)
  have a: "schedulerAddTask 9 4 300 1000 ?s =
      (1, ?s\<lparr>schedulerTasks := (schedulerTasks ?s)
           [1 := \<lparr>pTask = 9, task_context = 4, delay = 300, period = 1000, runMe = 0\<rparr>]\<rparr>)"
    using addTask_lowest_free [of 1 ?s 9 4 300 1000 0, THEN conjunct1, THEN mp, OF h] .
  have b: "fst (schedulerAddTask 9 4 300 1000 (snd (schedulerDeleteTask 0 ?s))) = 0"
    using addTask_lowest_free [of 1 ?s 9 4 300 1000 0, THEN conjunct2, THEN conjunct2,
        THEN mp, OF h'] .
  show ?thesis using a b by simp
qed

text \<open>
  Claim C9, as the code has it. Every failing registry call returns an error code:
  \<open>schedulerAddTask\<close> on a full table returns \<open>SCHEDULER_MAX_TASKS\<close>, and
  \<open>schedulerDeleteTask\<close> and \<open>schedulerModifyTaskPeriod\<close> return \<open>-1\<close> for an index out of
  range and for an empty slot. The error is also written to \<open>errorCode\<close> (as \<open>2\<close>) by
  \<open>schedulerAddTask\<close> on a full table and by \<open>schedulerDeleteTask\<close> on an empty slot only:
  \<open>schedulerDeleteTask\<close> with an index out of range and both failures of
  \<open>schedulerModifyTaskPeriod\<close> leave the whole state, \<open>errorCode\<close> included, as it was.
\<close>

theorem registry_errors:
  "((\<forall>i<SCHEDULER_MAX_TASKS s. occupied (schedulerTasks s ! i)) \<longrightarrow>
      fst (schedulerAddTask f c d p s) = SCHEDULER_MAX_TASKS s \<and>
      errorCode (snd (schedulerAddTask f c d p s)) = 2) \<and>
   (ix < SCHEDULER_MAX_TASKS s \<and> \<not> occupied (schedulerTasks s ! ix) \<longrightarrow>
      fst (schedulerDeleteTask ix s) = - 1 \<and>
      errorCode (snd (schedulerDeleteTask ix s)) = 2) \<and>
   (SCHEDULER_MAX_TASKS s \<le> ix \<longrightarrow> schedulerDeleteTask ix s = (- 1, s)) \<and>
   (SCHEDULER_MAX_TASKS s \<le> ix \<or> \<not> occupied (schedulerTasks s ! ix) \<longrightarrow>
      schedulerModifyTaskPeriod ix np s = (- 1, s))"
proof -
  have "schedulerAddTask f c d p s = (SCHEDULER_MAX_TASKS s, s\<lparr>errorCode := 2\<rparr>)"
    if "\<forall>i<SCHEDULER_MAX_TASKS s. occupied (schedulerTasks s ! i)"
  proof -
    have "find_gap (schedulerTasks s) 0 = length (schedulerTasks s)"
      using that by (intro find_gap_full) (simp add: occupied_def SCHEDULER_MAX_TASKS_def)
    then show ?thesis by (simp add: schedulerAddTask_def SCHEDULER_MAX_TASKS_def)
  qed
  then show ?thesis
    by (auto simp add: schedulerDeleteTask_def schedulerModifyTaskPeriod_def occupied_def)
qed

theorem registry_errors_witness:
  "fst (schedulerAddTask 9 0 1 1
     \<lparr>schedulerTasks = [\<lparr>pTask = 7, task_context = 0, delay = 5, period = 0, runMe = 0\<rparr>],
      errorCode = 0, calls = []\<rparr>) = 1 \<and>
   errorCode (snd (schedulerAddTask 9 0 1 1
     \<lparr>schedulerTasks = [\<lparr>pTask = 7, task_context = 0, delay = 5, period = 0, runMe = 0\<rparr>],
      errorCode = 0, calls = []\<rparr>)) = 2 \<and>
   fst (schedulerDeleteTask 0 \<lparr>schedulerTasks = [zero_task], errorCode = 0, calls = []\<rparr>) = - 1 \<and>
   errorCode (snd (schedulerDeleteTask 0
     \<lparr>schedulerTasks = [zero_task], errorCode = 0, calls = []\<rparr>)) = 2 \<and>
   schedulerDeleteTask 1 \<lparr>schedulerTasks = [zero_task], errorCode = 0, calls = []\<rparr> =
     (- 1, \<lparr>schedulerTasks = [zero_task], errorCode = 0, calls = []\<rparr>) \<and>
   schedulerModifyTaskPeriod 1 5 \<lparr>schedulerTasks = [zero_task], errorCode = 0, calls = []\<rparr> =
     (- 1, \<lparr>schedulerTasks = [zero_task], errorCode = 0, calls = []\<rparr>)"
proof -
  let ?full = "\<lparr>schedulerTasks = [\<lparr>pTask = 7, task_context = 0, delay = 5, period = 0, runMe = 0\<rparr>],
      errorCode = 0, calls = []\<rparr>"
  let ?e = "\<lparr>schedulerTasks = [zero_task], errorCode = 0, calls = []\<rparr>"
  have h1: "\<forall>i<SCHEDULER_MAX_TASKS ?full. occupied (schedulerTasks ?full ! i)"
    by (simp add: SCHEDULER_MAX_TASKS_def occupied_def)
  have h2: "0 < SCHEDULER_MAX_TASKS ?e \<and> \<not> occupied (schedulerTasks ?e ! 0)"
    by (simp add: SCHEDULER_MAX_TASKS_def occupied_def zero_task_fields)
  have h3: "SCHEDULER_MAX_TASKS ?e \<le> 1" by (simp add: SCHEDULER_MAX_TASKS_def)
  have a: "fst (schedulerAddTask 9 0 1 1 ?full) = 1 \<and>
      errorCode (snd (schedulerAddTask 9 0 1 1 ?full)) = 2"
    using registry_errors [of ?full 9 0 1 1 0 0, THEN conjunct1, THEN mp, OF h1]
    by (simp add: SCHEDULER_MAX_TASKS_def)
  have b: "fst (schedulerDeleteTask 0 ?e) = - 1 \<and> errorCode (snd (schedulerDeleteTask 0 ?e)) = 2"
    using registry_errors [of ?e 9 0 1 1 0 0, THEN conjunct2, THEN conjunct1, THEN mp, OF h2] .
  have c: "schedulerDeleteTask 1 ?e = (- 1, ?e)"
    using registry_errors [of ?e 9 0 1 1 1 0, THEN conjunct2, THEN conjunct2, THEN conjunct1,
        THEN mp, OF h3] .
  have d: "schedulerModifyTaskPeriod 1 5 ?e = (- 1, ?e)"
    using registry_errors [of ?e 9 0 1 1 1 5, THEN conjunct2, THEN conjunct2, THEN conjunct2,
        THEN mp, OF disjI1, OF h3] .
  show ?thesis using a b c d by simp
qed

text \<open>
  The claim as stated fails: \<open>schedulerModifyTaskPeriod\<close> on an empty slot, and
  \<open>schedulerDeleteTask\<close> on an index out of range, return the error \<open>-1\<close> while
  \<open>errorCode\<close> keeps the value \<open>0\<close> that \<open>schedulerInit\<close> gave it.
\<close>

theorem registry_errors_not_latched:
  "fst (schedulerModifyTaskPeriod 0 5
          (schedulerInit \<lparr>schedulerTasks = [zero_task], errorCode = 0, calls = []\<rparr>)) = - 1 \<and>
   errorCode (snd (schedulerModifyTaskPeriod 0 5
          (schedulerInit \<lparr>schedulerTasks = [zero_task], errorCode = 0, calls = []\<rparr>))) = 0 \<and>
   fst (schedulerDeleteTask 1
          (schedulerInit \<lparr>schedulerTasks = [zero_task], errorCode = 0, calls = []\<rparr>)) = - 1 \<and>
   errorCode (snd (schedulerDeleteTask 1
          (schedulerInit \<lparr>schedulerTasks = [zero_task], errorCode = 0, calls = []\<rparr>))) = 0"
  by (simp add: schedulerModifyTaskPeriod_def schedulerDeleteTask_def SCHEDULER_MAX_TASKS_def
      init_tasks init_errorCode zero_task_fields)

text \<open>
  Claim C8. On an occupied slot \<open>ix\<close>, \<open>schedulerModifyTaskPeriod ix np\<close> succeeds and
  changes the field \<open>period\<close> of that slot and nothing else. The countdown in flight is not
  touched: under any further calls that neither dispatch nor delete the slot nor modify it
  again, the slot counts down from the same \<open>delay\<close> as it would have without the call, its
  \<open>runMe\<close> is incremented at the same tick \<open>countdown (delay t)\<close>, and only the reload at
  that tick takes the new period instead of the old one.
\<close>

theorem modifyTaskPeriod_only_period:
  "ix < SCHEDULER_MAX_TASKS s \<and> occupied (schedulerTasks s ! ix) \<longrightarrow>
     schedulerModifyTaskPeriod ix np s =
       (0, s\<lparr>schedulerTasks := (schedulerTasks s)
                [ix := (schedulerTasks s ! ix)\<lparr>period := np\<rparr>]\<rparr>) \<and>
     (\<forall>ops. (\<forall>a\<in>set ops. keeps ix a \<and> \<not> is_dispatch a) \<and>
            ticks_in ops \<le> countdown (delay (schedulerTasks s ! ix)) \<longrightarrow>
        schedulerTasks (run ops s) ! ix =
          (if ticks_in ops < countdown (delay (schedulerTasks s ! ix))
           then (schedulerTasks s ! ix)
                  \<lparr>delay := delay (schedulerTasks s ! ix) - of_nat (ticks_in ops)\<rparr>
           else (schedulerTasks s ! ix)
                  \<lparr>delay := period (schedulerTasks s ! ix),
                   runMe := runMe (schedulerTasks s ! ix) + 1\<rparr>) \<and>
        schedulerTasks (run ops (snd (schedulerModifyTaskPeriod ix np s))) ! ix =
          (if ticks_in ops < countdown (delay (schedulerTasks s ! ix))
           then (schedulerTasks s ! ix)
                  \<lparr>period := np, delay := delay (schedulerTasks s ! ix) - of_nat (ticks_in ops)\<rparr>
           else (schedulerTasks s ! ix)
                  \<lparr>period := np, delay := np,
                   runMe := runMe (schedulerTasks s ! ix) + 1\<rparr>))"
proof (intro impI, elim conjE)
  assume ix: "ix < SCHEDULER_MAX_TASKS s" and occ: "occupied (schedulerTasks s ! ix)"
  let ?t = "schedulerTasks s ! ix"
  let ?s = "snd (schedulerModifyTaskPeriod ix np s)"
  have len: "ix < length (schedulerTasks s)" using ix by (simp add: SCHEDULER_MAX_TASKS_def)
  have p: "pTask ?t \<noteq> 0" using occ by (simp add: occupied_def)
  have frame: "schedulerModifyTaskPeriod ix np s =
       (0, s\<lparr>schedulerTasks := (schedulerTasks s)[ix := ?t\<lparr>period := np\<rparr>]\<rparr>)"
    using ix p by (simp add: schedulerModifyTaskPeriod_def)
  have t': "schedulerTasks ?s ! ix = ?t\<lparr>period := np\<rparr>"
    using len by (simp add: frame)
  have len': "ix < length (schedulerTasks ?s)" using len by (simp add: frame)
  have p': "pTask (schedulerTasks ?s ! ix) \<noteq> 0" using p t' by simp
  have timing: "schedulerTasks (run ops s) ! ix =
          (if ticks_in ops < countdown (delay ?t)
           then ?t\<lparr>delay := delay ?t - of_nat (ticks_in ops)\<rparr>
           else ?t\<lparr>delay := period ?t, runMe := runMe ?t + 1\<rparr>) \<and>
        schedulerTasks (run ops ?s) ! ix =
          (if ticks_in ops < countdown (delay ?t)
           then ?t\<lparr>period := np, delay := delay ?t - of_nat (ticks_in ops)\<rparr>
           else ?t\<lparr>period := np, delay := np, runMe := runMe ?t + 1\<rparr>)"
    if k: "\<forall>a\<in>set ops. keeps ix a \<and> \<not> is_dispatch a"
      and n: "ticks_in ops \<le> countdown (delay ?t)" for ops
  proof -
    have n': "ticks_in ops \<le> countdown (delay (schedulerTasks ?s ! ix))" using n t' by simp
    show ?thesis
      using countdown_ticks[OF k len p n] countdown_ticks[OF k len' p' n'] t' by simp
  qed
  show "schedulerModifyTaskPeriod ix np s =
       (0, s\<lparr>schedulerTasks := (schedulerTasks s)[ix := ?t\<lparr>period := np\<rparr>]\<rparr>) \<and>
     (\<forall>ops. (\<forall>a\<in>set ops. keeps ix a \<and> \<not> is_dispatch a) \<and>
            ticks_in ops \<le> countdown (delay ?t) \<longrightarrow>
        schedulerTasks (run ops s) ! ix =
          (if ticks_in ops < countdown (delay ?t)
           then ?t\<lparr>delay := delay ?t - of_nat (ticks_in ops)\<rparr>
           else ?t\<lparr>delay := period ?t, runMe := runMe ?t + 1\<rparr>) \<and>
        schedulerTasks (run ops ?s) ! ix =
          (if ticks_in ops < countdown (delay ?t)
           then ?t\<lparr>period := np, delay := delay ?t - of_nat (ticks_in ops)\<rparr>
           else ?t\<lparr>period := np, delay := np, runMe := runMe ?t + 1\<rparr>))"
    using frame timing by blast
qed

theorem modifyTaskPeriod_only_period_witness:
  "schedulerModifyTaskPeriod 0 50
     \<lparr>schedulerTasks = [\<lparr>pTask = 7, task_context = 3, delay = 2, period = 1000, runMe = 0\<rparr>],
      errorCode = 0, calls = []\<rparr> =
   (0, \<lparr>schedulerTasks = [\<lparr>pTask = 7, task_context = 3, delay = 2, period = 50, runMe = 0\<rparr>],
      errorCode = 0, calls = []\<rparr>) \<and>
   schedulerTasks (run [TickStep 1, TickStep 2]
     \<lparr>schedulerTasks = [\<lparr>pTask = 7, task_context = 3, delay = 2, period = 1000, runMe = 0\<rparr>],
      errorCode = 0, calls = []\<rparr>) ! 0 =
     \<lparr>pTask = 7, task_context = 3, delay = 1000, period = 1000, runMe = 1\<rparr> \<and>
   schedulerTasks (run [TickStep 1, TickStep 2] (snd (schedulerModifyTaskPeriod 0 50
     \<lparr>schedulerTasks = [\<lparr>pTask = 7, task_context = 3, delay = 2, period = 1000, runMe = 0\<rparr>],
      errorCode = 0, calls = []\<rparr>))) ! 0 =
     \<lparr>pTask = 7, task_context = 3, delay = 50, period = 50, runMe = 1\<rparr>"
proof -
  let ?s = "\<lparr>schedulerTasks = [\<lparr>pTask = 7, task_context = 3, delay = 2, period = 1000, runMe = 0\<rparr>],
      errorCode = 0, calls = []\<rparr>"
  have h: "0 < SCHEDULER_MAX_TASKS ?s \<and> occupied (schedulerTasks ?s ! 0)"
    by (simp add: SCHEDULER_MAX_TASKS_def occupied_def)
  have k: "(\<forall>a\<in>set [TickStep 1, TickStep 2]. keeps 0 a \<and> \<not> is_dispatch a) \<and>
      ticks_in [TickStep 1, TickStep 2] \<le> countdown (delay (schedulerTasks ?s ! 0))"
    by (simp add: ticks_in_def countdown_def)
  have n: "\<not> ticks_in [TickStep 1, TickStep 2] < countdown (delay (schedulerTasks ?s ! 0))"
    by (simp add: ticks_in_def countdown_def)
  note w = modifyTaskPeriod_only_period [of 0 ?s 50, THEN mp, OF h]
  have a: "schedulerModifyTaskPeriod 0 50 ?s =
      (0, ?s\<lparr>schedulerTasks := (schedulerTasks ?s)[0 := (schedulerTasks ?s ! 0)\<lparr>period := 50\<rparr>]\<rparr>)"
    using w [THEN conjunct1] .
  note b = w [THEN conjunct2, THEN spec, of "[TickStep 1, TickStep 2]", THEN mp, OF k]
  show ?thesis using a b n by simp
qed

section \<open>The tick updater\<close>




text \<open>
  Claim C6, at a state where the code departs from it. A one-shot task registered with
  \<open>delay = 1\<close> is due after the first tick (\<open>runMe = 1\<close>, \<open>delay = 0\<close>, \<open>period = 0\<close>) and
  is not dispatched. The claim has the second tick increment \<open>runMe\<close> to \<open>2\<close>. In the
  code the second tick decrements the unsigned \<open>delay\<close> from zero before it tests it, the
  test \<^verbatim>\<open>-- t->delay > 0\<close> succeeds on the wrapped value, and \<open>runMe\<close> is left at \<open>1\<close>;
  a third tick leaves it at \<open>1\<close> as well.
\<close>

theorem spent_one_shot_not_incremented:
  "runMe (schedulerTasks (run [AddTask 7 0 1 0, TickStep 1]
      (schedulerInit \<lparr>schedulerTasks = [zero_task], errorCode = 0, calls = []\<rparr>)) ! 0) = 1 \<and>
   delay (schedulerTasks (run [AddTask 7 0 1 0, TickStep 1]
      (schedulerInit \<lparr>schedulerTasks = [zero_task], errorCode = 0, calls = []\<rparr>)) ! 0) = 0 \<and>
   period (schedulerTasks (run [AddTask 7 0 1 0, TickStep 1]
      (schedulerInit \<lparr>schedulerTasks = [zero_task], errorCode = 0, calls = []\<rparr>)) ! 0) = 0 \<and>
   runMe (schedulerTasks (run [AddTask 7 0 1 0, TickStep 1, TickStep 2]
      (schedulerInit \<lparr>schedulerTasks = [zero_task], errorCode = 0, calls = []\<rparr>)) ! 0) = 1 \<and>
   runMe (schedulerTasks (run [AddTask 7 0 1 0, TickStep 1, TickStep 2, TickStep 3]
      (schedulerInit \<lparr>schedulerTasks = [zero_task], errorCode = 0, calls = []\<rparr>)) ! 0) = 1"
  by (simp add: run_Cons run_Nil add_tasks update_tasks init_tasks find_gap.simps
      zero_task_fields update_task_def Let_def zero_less_max_word word_gt_0)

section \<open>Periodic and one-shot tasks\<close>

subsection \<open>A periodic task with a first delay of at least one tick\<close>

text \<open>
  Let \<open>schedulerAddTask\<close> register a function \<open>f\<close> (not null) with delay \<open>d \<ge> 1\<close> and
  period \<open>p \<ge> 1\<close> in slot \<open>i\<close>, and let any calls follow that neither delete slot \<open>i\<close> nor
  modify its period. Then the task stays registered with its period, and the next step of
  \<open>schedulerUpdate\<close>, the tick number \<open>k\<close> since registration, increments \<open>runMe\<close> of the
  slot and reloads \<open>delay\<close> to \<open>p\<close> exactly when \<open>k\<close> is one of \<open>d, d + p, d + 2 * p, \<dots>\<close>;
  at every other tick it leaves \<open>runMe\<close> alone and decrements \<open>delay\<close>. The instance below
  is the documented call \<^verbatim>\<open>schedulerAddTask(Do_X,300,1000)\<close>: due at ticks 300 and 1300.
\<close>

lemma periodic_task_ticks:
  assumes "schedulerAddTask f c d p s = (i, s1)" and "i < SCHEDULER_MAX_TASKS s"
    and "f \<noteq> 0" and "d \<noteq> 0" and "p \<noteq> 0"
    and "\<forall>a\<in>set ops. keeps i a"
  shows "let before = schedulerTasks (run ops s1) ! i;
             after = schedulerTasks (schedulerUpdate tk (run ops s1)) ! i;
             k = ticks_in ops + 1
         in pTask before = f \<and> task_context before = c \<and> period before = p \<and>
            pTask after = f \<and> task_context after = c \<and> period after = p \<and>
            (if unat d \<le> k \<and> (k - unat d) mod unat p = 0
             then runMe after = runMe before + 1 \<and> delay after = p
             else runMe after = runMe before \<and> delay after = delay before - 1)"
proof -
  let ?b = "schedulerTasks (run ops s1) ! i"
  let ?a = "schedulerTasks (schedulerUpdate tk (run ops s1)) ! i"
  note reg = add_registers[OF assms(1,2)]
  have occ: "pTask (schedulerTasks s1 ! i) \<noteq> 0" and per: "period (schedulerTasks s1 ! i) \<noteq> 0"
    using reg(2) assms(3,5) by simp_all
  have b: "pTask ?b = f" "task_context ?b = c" "period ?b = p"
    "delay ?b = of_nat (remaining d p (ticks_in ops))"
    using run_periodic[OF assms(6) reg(1) occ per] reg(2) by simp_all
  have len: "i < length (schedulerTasks (run ops s1))" using reg(1) by (simp add: run_length)
  have a: "?a = update_task ?b" using len by (rule update_slot_nth)
  have one: "delay ?b = 1 \<longleftrightarrow> remaining d p (ticks_in ops) = 1"
    unfolding b(4) using of_nat_eq_1[OF remaining_pos remaining_le] .
  have cd: "countdown d = unat d" "countdown p = unat p"
    using assms(4,5) by (simp_all add: countdown_def)
  have fire: "delay ?b = 1 \<longleftrightarrow>
      unat d \<le> ticks_in ops + 1 \<and> (ticks_in ops + 1 - unat d) mod unat p = 0"
    unfolding one remaining_expiry cd by simp
  have upd: "?a = (if delay ?b = 1 then ?b\<lparr>delay := p, runMe := runMe ?b + 1\<rparr>
                   else ?b\<lparr>delay := delay ?b - 1\<rparr>)"
    unfolding a using update_task_occupied[of ?b] b(1,3) assms(3) by simp
  show ?thesis
    unfolding Let_def using upd b(1,2,3) fire by simp
qed

lemma periodic_task_ticks_300_1000:
  "(let s0 = schedulerInit \<lparr>schedulerTasks = [zero_task, zero_task], errorCode = 0, calls = []\<rparr>;
        s1 = snd (schedulerAddTask 7 3 300 1000 s0);
        t299 = schedulerTasks (run (replicate 299 (TickStep 0)) s1) ! 0;
        t300 = schedulerTasks (schedulerUpdate 0 (run (replicate 299 (TickStep 0)) s1)) ! 0;
        t1298 = schedulerTasks (run (replicate 1298 (TickStep 0)) s1) ! 0;
        t1299 = schedulerTasks (schedulerUpdate 0 (run (replicate 1298 (TickStep 0)) s1)) ! 0;
        t1300 = schedulerTasks (schedulerUpdate 0 (run (replicate 1299 (TickStep 0)) s1)) ! 0
    in fst (schedulerAddTask 7 3 300 1000 s0) = 0 \<and>
       runMe t300 = runMe t299 + 1 \<and> delay t300 = 1000 \<and>
       runMe t1299 = runMe t1298 \<and>
       runMe t1300 = runMe t1299 + 1 \<and> delay t1300 = 1000)"
proof -
  define s0 where "s0 = schedulerInit \<lparr>schedulerTasks = [zero_task, zero_task], errorCode = 0, calls = []\<rparr>"
  define s1 where "s1 = snd (schedulerAddTask 7 3 300 1000 s0)"
  have ts: "schedulerTasks s0 = [zero_task, zero_task]"
    by (simp add: s0_def init_tasks)
  have n: "SCHEDULER_MAX_TASKS s0 = 2" by (simp add: SCHEDULER_MAX_TASKS_def ts)
  have g: "find_gap (schedulerTasks s0) 0 = 0"
    by (simp add: ts find_gap.simps zero_task_fields)
  have add: "schedulerAddTask 7 3 300 1000 s0 = (0, s1)"
    using g n by (simp add: s1_def schedulerAddTask_def Let_def)
  have i: "0 < SCHEDULER_MAX_TASKS s0" by (simp add: n)
  have k: "\<forall>a\<in>set (replicate m (TickStep 0)). keeps 0 a" for m by simp
  have t: "ticks_in (replicate m (TickStep 0)) = m" for m by (simp add: ticks_in_def)
  have u: "unat (300 :: 32 word) = 300" "unat (1000 :: 32 word) = 1000" by simp_all
  have w: "let before = schedulerTasks (run (replicate m (TickStep 0)) s1) ! 0;
               after = schedulerTasks (schedulerUpdate 0 (run (replicate m (TickStep 0)) s1)) ! 0
           in if 300 \<le> m + 1 \<and> (m + 1 - 300) mod 1000 = 0
              then runMe after = runMe before + 1 \<and> delay after = 1000
              else runMe after = runMe before \<and> delay after = delay before - 1" for m
    using periodic_task_ticks [OF add i _ _ _ k [of m], where tk = 0] t [of m] u
    by (simp add: Let_def)
  have a: "runMe (schedulerTasks (schedulerUpdate 0 (run (replicate 299 (TickStep 0)) s1)) ! 0) =
           runMe (schedulerTasks (run (replicate 299 (TickStep 0)) s1) ! 0) + 1 \<and>
           delay (schedulerTasks (schedulerUpdate 0 (run (replicate 299 (TickStep 0)) s1)) ! 0) = 1000"
    using w [of 299] by (simp add: Let_def)
  have b: "runMe (schedulerTasks (schedulerUpdate 0 (run (replicate 1298 (TickStep 0)) s1)) ! 0) =
           runMe (schedulerTasks (run (replicate 1298 (TickStep 0)) s1) ! 0)"
    using w [of 1298] by (simp add: Let_def)
  have e: "schedulerUpdate 0 (run (replicate 1298 (TickStep 0)) s1) =
           run (replicate 1299 (TickStep 0)) s1"
  proof -
    have "(1299 :: nat) = Suc 1298" by simp
    then have "replicate 1299 (TickStep 0) = replicate (Suc 1298) (TickStep 0)"
      by (simp only:)
    then have "replicate 1299 (TickStep 0) = replicate 1298 (TickStep 0) @ [TickStep 0]"
      by (simp only: replicate_Suc replicate_append_same)
    then show ?thesis by (simp add: run_append run_Cons run_Nil)
  qed
  have c: "runMe (schedulerTasks (schedulerUpdate 0 (run (replicate 1299 (TickStep 0)) s1)) ! 0) =
           runMe (schedulerTasks (run (replicate 1299 (TickStep 0)) s1) ! 0) + 1 \<and>
           delay (schedulerTasks (schedulerUpdate 0 (run (replicate 1299 (TickStep 0)) s1)) ! 0) = 1000"
    using w [of 1299] by (simp add: Let_def)
  show ?thesis
    unfolding Let_def s0_def [symmetric] s1_def [symmetric] using add a b c e by simp
qed

subsection \<open>A one-shot task with a delay of at least one tick\<close>

text \<open>
  Let \<open>schedulerAddTask\<close> register a function \<open>f\<close> (not null) with delay \<open>d \<ge> 1\<close> and
  period \<open>0\<close> in slot \<open>i\<close>, and let the calls that follow neither delete slot \<open>i\<close> nor
  modify its period. While fewer than \<open>d\<close> ticks have passed, the slot is not due and no
  invocation is made from it, whatever dispatcher passes take place. The tick number \<open>d\<close>
  makes it due (\<open>runMe = 1\<close>, \<open>delay = 0\<close>). A dispatcher pass that comes before any further
  tick invokes \<open>f\<close> with its context exactly once and leaves the slot all zeroes; after that
  the slot stays free, and no further invocation is made from it, until some
  \<open>schedulerAddTask\<close> registers a task there again. The instance below is the documented
  call \<^verbatim>\<open>schedulerAddTask(Do_X,1000,0)\<close>.
\<close>

lemma one_shot_task_fires_once:
  assumes "schedulerAddTask f c d 0 s = (i, s1)" and "i < SCHEDULER_MAX_TASKS s"
    and "f \<noteq> 0" and "d \<noteq> 0"
    and "\<forall>a\<in>set early. keeps i a" and "ticks_in early < unat d"
    and "\<forall>a\<in>set pre. keeps i a" and "ticks_in pre + 1 = unat d"
    and "\<forall>a\<in>set mid. keeps i a \<and> \<not> is_tick a \<and> \<not> is_dispatch a"
    and "\<forall>a\<in>set post. \<not> is_add a"
  shows "let s2 = run mid (schedulerUpdate tk (run pre s1));
             s3 = schedulerDispatchTasks tk' s2;
             s4 = run post s3
         in runMe (schedulerTasks (run early s1) ! i) = 0 \<and>
            calls_from i (run early s1) = calls_from i s \<and>
            schedulerTasks s2 ! i =
              \<lparr>pTask = f, task_context = c, delay = 0, period = 0, runMe = 1\<rparr> \<and>
            calls_from i s2 = calls_from i s \<and>
            calls_from i s3 =
              calls_from i s @
                [\<lparr>call_slot = i, call_fn = f, call_ctx = c, call_ticks = tk'\<rparr>] \<and>
            schedulerTasks s3 ! i = zero_task \<and>
            schedulerTasks s4 ! i = zero_task \<and>
            calls_from i s4 = calls_from i s3"
proof -
  let ?t = "\<lparr>pTask = f, task_context = c, delay = d, period = 0, runMe = 0\<rparr>"
  let ?due = "\<lparr>pTask = f, task_context = c, delay = 0, period = 0, runMe = 1\<rparr>"
  let ?p = "run pre s1"
  let ?u = "schedulerUpdate tk ?p"
  let ?s2 = "run mid ?u"
  let ?s3 = "schedulerDispatchTasks tk' ?s2"
  note reg = add_registers[OF assms(1,2)]
  have occ: "pTask (schedulerTasks s1 ! i) \<noteq> 0" and idle: "runMe (schedulerTasks s1 ! i) = 0"
    using reg(2) assms(3) by simp_all
  have cd: "countdown (delay (schedulerTasks s1 ! i)) = unat d"
    using reg(2) assms(4) by (simp add: countdown_def)
  have e: "runMe (schedulerTasks (run early s1) ! i) = 0 \<and>
      calls_from i (run early s1) = calls_from i s"
    using run_before_expiry[OF assms(5) reg(1) occ idle] assms(6) cd reg(2,3)
    by (simp add: calls_from_def)
  have n: "ticks_in pre = unat d - 1" using assms(8) by simp
  have "ticks_in pre < countdown (delay (schedulerTasks s1 ! i))" using cd assms(8) by simp
  then have p: "schedulerTasks ?p ! i = ?t\<lparr>delay := d - of_nat (ticks_in pre)\<rparr>"
    and pc: "calls_from i ?p = calls_from i s"
    using run_before_expiry[OF assms(7) reg(1) occ idle] reg(2,3)
    by (simp_all add: calls_from_def)
  have p1: "schedulerTasks ?p ! i = ?t\<lparr>delay := 1\<rparr>"
    using p n assms(4) by (simp add: of_nat_unat_pred)
  have lenp: "i < length (schedulerTasks ?p)" using reg(1) by (simp add: run_length)
  have u: "schedulerTasks ?u ! i = ?due"
    using update_slot_nth[OF lenp, of tk] p1 assms(3) by (simp add: update_task_occupied)
  have uc: "calls_from i ?u = calls_from i s"
    using pc by (simp add: calls_from_def update_calls)
  have lenu: "i < length (schedulerTasks ?u)" using lenp by (simp add: update_tasks)
  have occu: "pTask (schedulerTasks ?u ! i) \<noteq> 0" using u assms(3) by simp
  have kmid: "\<forall>a\<in>set mid. keeps i a \<and> \<not> is_dispatch a" using assms(9) by simp
  have nmid: "ticks_in mid = 0" using assms(9) by (simp add: ticks_in_none)
  have s2: "schedulerTasks ?s2 ! i = ?due" and s2c: "calls_from i ?s2 = calls_from i s"
    using run_no_dispatch[OF kmid lenu occu] nmid u uc by simp_all
  have len2: "i < length (schedulerTasks ?s2)" using lenu by (simp add: run_length)
  have s3: "schedulerTasks ?s3 ! i = zero_task"
    using len2 s2 by (simp add: dispatch_tasks dispatch_task_def)
  have s3c: "calls_from i ?s3 =
      calls_from i s @ [\<lparr>call_slot = i, call_fn = f, call_ctx = c, call_ticks = tk'\<rparr>]"
    using calls_from_dispatch[OF len2, of tk'] s2 s2c by (simp add: call_of_def)
  have len3: "i < length (schedulerTasks ?s3)" using len2 by (simp add: dispatch_tasks)
  have s4: "schedulerTasks (run post ?s3) ! i = zero_task \<and>
      calls_from i (run post ?s3) = calls_from i ?s3"
    using run_free[OF assms(10) len3 s3] .
  show ?thesis
    unfolding Let_def using e s2 s2c s3 s3c s4 by simp
qed

lemma one_shot_task_fires_once_1000:
  "(let s0 = schedulerInit \<lparr>schedulerTasks = [zero_task, zero_task], errorCode = 0, calls = []\<rparr>;
        s1 = snd (schedulerAddTask 7 3 1000 0 s0);
        s2 = schedulerUpdate 1000 (run (replicate 999 (TickStep 0)) s1);
        s3 = schedulerDispatchTasks 1000 s2;
        s4 = run [TickStep 1001, DispatchOnce 1001] s3
    in fst (schedulerAddTask 7 3 1000 0 s0) = 0 \<and>
       calls_from 0 (run (replicate 999 (TickStep 0) @ [DispatchOnce 999]) s1) = [] \<and>
       schedulerTasks s2 ! 0 =
         \<lparr>pTask = 7, task_context = 3, delay = 0, period = 0, runMe = 1\<rparr> \<and>
       calls_from 0 s3 = [\<lparr>call_slot = 0, call_fn = 7, call_ctx = 3, call_ticks = 1000\<rparr>] \<and>
       schedulerTasks s3 ! 0 = zero_task \<and>
       schedulerTasks s4 ! 0 = zero_task \<and>
       calls_from 0 s4 = [\<lparr>call_slot = 0, call_fn = 7, call_ctx = 3, call_ticks = 1000\<rparr>])"
proof -
  define s0 where "s0 = schedulerInit \<lparr>schedulerTasks = [zero_task, zero_task], errorCode = 0, calls = []\<rparr>"
  define s1 where "s1 = snd (schedulerAddTask 7 3 1000 0 s0)"
  have ts: "schedulerTasks s0 = [zero_task, zero_task]"
    by (simp add: s0_def init_tasks)
  have cs: "calls_from 0 s0 = []" by (simp add: calls_from_def s0_def init_calls)
  have n: "SCHEDULER_MAX_TASKS s0 = 2" by (simp add: SCHEDULER_MAX_TASKS_def ts)
  have g: "find_gap (schedulerTasks s0) 0 = 0"
    by (simp add: ts find_gap.simps zero_task_fields)
  have add: "schedulerAddTask 7 3 1000 0 s0 = (0, s1)"
    using g n by (simp add: s1_def schedulerAddTask_def Let_def)
  have i: "0 < SCHEDULER_MAX_TASKS s0" by (simp add: n)
  have h1: "\<forall>a\<in>set (replicate 999 (TickStep 0) @ [DispatchOnce 999]). keeps 0 a" by simp
  have h2: "ticks_in (replicate 999 (TickStep 0) @ [DispatchOnce 999]) < unat (1000 :: 32 word)"
    by (simp add: ticks_in_def)
  have h3: "\<forall>a\<in>set (replicate 999 (TickStep 0)). keeps 0 a" by simp
  have h4: "ticks_in (replicate 999 (TickStep 0)) + 1 = unat (1000 :: 32 word)"
    by (simp add: ticks_in_def)
  have h5: "\<forall>a\<in>set []. keeps 0 a \<and> \<not> is_tick a \<and> \<not> is_dispatch a" by simp
  have h6: "\<forall>a\<in>set [TickStep 1001, DispatchOnce 1001]. \<not> is_add a" by simp
  show ?thesis
    unfolding Let_def s0_def [symmetric] s1_def [symmetric]
    using one_shot_task_fires_once [OF add i _ _ h1 h2 h3 h4 h5 h6, of 1000 1000] add cs
    by (simp add: Let_def run_Nil)
qed

subsection \<open>The documented calls with a delay of zero\<close>

text \<open>
  Claim C1, at the call where the code departs from it. The comment above
  \<open>schedulerAddTask\<close> documents \<^verbatim>\<open>schedulerAddTask(Do_X,0,1000)\<close> as causing \<^verbatim>\<open>Do_X\<close> to be
  executed regularly, every 1000 ticks, and the claim has the task due at ticks
  \<open>D, D + P, \<dots>\<close>. In the code \<open>schedulerUpdate\<close> decrements the unsigned \<open>delay\<close> before
  it tests it, so the first tick wraps a \<open>delay\<close> of zero: on a fresh table the task
  registered by that call is not due after any number of ticks below \<open>2 ^ 32\<close>, and
  becomes due for the first time at tick \<open>2 ^ 32\<close>.
\<close>

theorem periodic_zero_delay_not_due:
  "fst (schedulerAddTask 7 0 0 1000
      (schedulerInit \<lparr>schedulerTasks = [zero_task], errorCode = 0, calls = []\<rparr>)) = 0 \<and>
   (\<forall>n<2 ^ 32.
      runMe (schedulerTasks (run (replicate n (TickStep 0))
        (snd (schedulerAddTask 7 0 0 1000
          (schedulerInit \<lparr>schedulerTasks = [zero_task], errorCode = 0, calls = []\<rparr>)))) ! 0) = 0) \<and>
   runMe (schedulerTasks (run (replicate (2 ^ 32) (TickStep 0))
        (snd (schedulerAddTask 7 0 0 1000
          (schedulerInit \<lparr>schedulerTasks = [zero_task], errorCode = 0, calls = []\<rparr>)))) ! 0) = 1"
proof -
  let ?s0 = "schedulerInit \<lparr>schedulerTasks = [zero_task], errorCode = 0, calls = []\<rparr>"
  let ?s1 = "snd (schedulerAddTask 7 0 0 1000 ?s0)"
  let ?t = "\<lparr>pTask = 7, task_context = 0, delay = 0, period = 1000, runMe = 0\<rparr>"
  note fr = first_registration [of 7 0 0 1000]
  note reg = add_registers [OF fr [THEN conjunct1] fr [THEN conjunct2, THEN conjunct1]]
  have occ: "pTask (schedulerTasks ?s1 ! 0) \<noteq> 0" using reg(2) by simp
  have cd: "countdown (delay (schedulerTasks ?s1 ! 0)) = 2 ^ 32"
    using reg(2) by (simp add: countdown_def)
  have slot: "schedulerTasks (run (replicate n (TickStep 0)) ?s1) ! 0 =
      (if n < 2 ^ 32 then ?t\<lparr>delay := - of_nat n\<rparr> else ?t\<lparr>delay := 1000, runMe := 1\<rparr>)"
    if "n \<le> 2 ^ 32" for n
    using countdown_ticks [OF ticks_only [of n 0 0, THEN conjunct1] reg(1) occ] that cd reg(2)
    by (simp add: ticks_only)
  have early: "\<forall>n<2 ^ 32. runMe (schedulerTasks (run (replicate n (TickStep 0)) ?s1) ! 0) = 0"
    using slot by simp
  have late: "runMe (schedulerTasks (run (replicate (2 ^ 32) (TickStep 0)) ?s1) ! 0) = 1"
    using slot [of "2 ^ 32"] by simp
  have "fst (schedulerAddTask 7 0 0 1000 ?s0) = 0"
    using fr [THEN conjunct1] by (metis fst_conv)
  then show ?thesis using early late by blast
qed

theorem periodic_zero_delay_not_due_witness:
  "runMe (schedulerTasks (run (replicate 1 (TickStep 0))
        (snd (schedulerAddTask 7 0 0 1000
          (schedulerInit \<lparr>schedulerTasks = [zero_task], errorCode = 0, calls = []\<rparr>)))) ! 0) = 0 \<and>
   runMe (schedulerTasks (run (replicate 1000 (TickStep 0))
        (snd (schedulerAddTask 7 0 0 1000
          (schedulerInit \<lparr>schedulerTasks = [zero_task], errorCode = 0, calls = []\<rparr>)))) ! 0) = 0 \<and>
   runMe (schedulerTasks (run (replicate 2000 (TickStep 0))
        (snd (schedulerAddTask 7 0 0 1000
          (schedulerInit \<lparr>schedulerTasks = [zero_task], errorCode = 0, calls = []\<rparr>)))) ! 0) = 0"
proof -
  note w = periodic_zero_delay_not_due [THEN conjunct2, THEN conjunct1, THEN spec, THEN mp]
  have a: "(1 :: nat) < 2 ^ 32" "(1000 :: nat) < 2 ^ 32" "(2000 :: nat) < 2 ^ 32" by simp_all
  show ?thesis using w [OF a(1)] w [OF a(2)] w [OF a(3)] by blast
qed

text \<open>
  Claim C2, at a call where the code departs from it. The comment above
  \<open>schedulerAddTask\<close> gives \<^verbatim>\<open>DELAY\<close> as the interval before the task is first executed,
  and a task with \<^verbatim>\<open>PERIOD\<close> zero as called once at the time determined by \<^verbatim>\<open>DELAY\<close>; the
  claim has a one-shot task with delay \<open>D\<close> invoked at tick \<open>D\<close>. In the code the first
  tick wraps an unsigned \<open>delay\<close> of zero instead of making the slot due: on a fresh table
  a one-shot task registered with delay zero is not due, is not invoked by any dispatcher
  pass and stays in the table for as long as fewer than \<open>2 ^ 32\<close> ticks have passed.
\<close>

theorem one_shot_zero_delay_not_invoked:
  "fst (schedulerAddTask 7 0 0 0
      (schedulerInit \<lparr>schedulerTasks = [zero_task], errorCode = 0, calls = []\<rparr>)) = 0 \<and>
   (\<forall>ops. (\<forall>a\<in>set ops. keeps 0 a) \<and> ticks_in ops < 2 ^ 32 \<longrightarrow>
      calls_from 0 (run ops (snd (schedulerAddTask 7 0 0 0
        (schedulerInit \<lparr>schedulerTasks = [zero_task], errorCode = 0, calls = []\<rparr>)))) = [] \<and>
      runMe (schedulerTasks (run ops (snd (schedulerAddTask 7 0 0 0
        (schedulerInit \<lparr>schedulerTasks = [zero_task], errorCode = 0, calls = []\<rparr>)))) ! 0) = 0 \<and>
      pTask (schedulerTasks (run ops (snd (schedulerAddTask 7 0 0 0
        (schedulerInit \<lparr>schedulerTasks = [zero_task], errorCode = 0, calls = []\<rparr>)))) ! 0) = 7)"
proof -
  let ?s0 = "schedulerInit \<lparr>schedulerTasks = [zero_task], errorCode = 0, calls = []\<rparr>"
  let ?s1 = "snd (schedulerAddTask 7 0 0 0 ?s0)"
  note fr = first_registration [of 7 0 0 0]
  note reg = add_registers [OF fr [THEN conjunct1] fr [THEN conjunct2, THEN conjunct1]]
  have occ: "pTask (schedulerTasks ?s1 ! 0) \<noteq> 0" and idle: "runMe (schedulerTasks ?s1 ! 0) = 0"
    using reg(2) by simp_all
  have cd: "countdown (delay (schedulerTasks ?s1 ! 0)) = 2 ^ 32"
    using reg(2) by (simp add: countdown_def)
  have c0: "calls_from 0 ?s1 = []"
    using reg(3) fr by (simp add: calls_from_def)
  have "calls_from 0 (run ops ?s1) = [] \<and>
      runMe (schedulerTasks (run ops ?s1) ! 0) = 0 \<and>
      pTask (schedulerTasks (run ops ?s1) ! 0) = 7"
    if k: "\<forall>a\<in>set ops. keeps 0 a" and n: "ticks_in ops < 2 ^ 32" for ops
    using run_before_expiry [OF k reg(1) occ idle] n cd c0 reg(2) by simp
  moreover have "fst (schedulerAddTask 7 0 0 0 ?s0) = 0"
    using fr [THEN conjunct1] by (metis fst_conv)
  ultimately show ?thesis by blast
qed

theorem one_shot_zero_delay_not_invoked_witness:
  "calls_from 0 (run [TickStep 1, DispatchOnce 1, TickStep 2, DispatchOnce 2]
      (snd (schedulerAddTask 7 0 0 0
        (schedulerInit \<lparr>schedulerTasks = [zero_task], errorCode = 0, calls = []\<rparr>)))) = [] \<and>
   runMe (schedulerTasks (run [TickStep 1, DispatchOnce 1, TickStep 2, DispatchOnce 2]
      (snd (schedulerAddTask 7 0 0 0
        (schedulerInit \<lparr>schedulerTasks = [zero_task], errorCode = 0, calls = []\<rparr>)))) ! 0) = 0 \<and>
   pTask (schedulerTasks (run [TickStep 1, DispatchOnce 1, TickStep 2, DispatchOnce 2]
      (snd (schedulerAddTask 7 0 0 0
        (schedulerInit \<lparr>schedulerTasks = [zero_task], errorCode = 0, calls = []\<rparr>)))) ! 0) = 7"
proof -
  have h: "(\<forall>a\<in>set [TickStep 1, DispatchOnce 1, TickStep 2, DispatchOnce 2]. keeps 0 a) \<and>
      ticks_in [TickStep 1, DispatchOnce 1, TickStep 2, DispatchOnce 2] < 2 ^ 32"
    by (simp add: ticks_in_def)
  show ?thesis
    using one_shot_zero_delay_not_invoked [THEN conjunct2, THEN spec, THEN mp, OF h] .
qed

section \<open>Reachable states\<close>

text \<open>
  Claim C10. In every state reached from \<open>schedulerInit\<close> by any sequence of
  \<open>schedulerAddTask\<close>, \<open>schedulerDeleteTask\<close>, \<open>schedulerModifyTaskPeriod\<close>,
  \<open>schedulerUpdate\<close> and \<open>schedulerDispatchTasks\<close>, every slot with \<open>runMe > 0\<close> has a
  function pointer that is not null; and every invocation that the dispatcher has made
  since \<open>schedulerInit\<close> went through a pointer that is not null.
\<close>

theorem due_slot_has_function:
  "(\<forall>i<SCHEDULER_MAX_TASKS (run ops (schedulerInit s)).
      0 < runMe (schedulerTasks (run ops (schedulerInit s)) ! i) \<longrightarrow>
      pTask (schedulerTasks (run ops (schedulerInit s)) ! i) \<noteq> 0) \<and>
   (\<forall>c\<in>set (drop (length (calls s)) (calls (run ops (schedulerInit s)))). call_fn c \<noteq> 0)"
proof -
  let ?s = "schedulerInit s"
  have "\<forall>t\<in>set (schedulerTasks ?s). runMe t \<noteq> 0 \<longrightarrow> pTask t \<noteq> 0"
    by (simp add: init_tasks zero_task_fields)
  from run_due[OF this, of ops]
  have inv: "\<forall>t\<in>set (schedulerTasks (run ops ?s)). runMe t \<noteq> 0 \<longrightarrow> pTask t \<noteq> 0"
    and log: "\<exists>new. calls (run ops ?s) = calls ?s @ new \<and> (\<forall>c\<in>set new. call_fn c \<noteq> 0)"
    by blast+
  have slots: "\<forall>i<SCHEDULER_MAX_TASKS (run ops ?s).
      0 < runMe (schedulerTasks (run ops ?s) ! i) \<longrightarrow> pTask (schedulerTasks (run ops ?s) ! i) \<noteq> 0"
    using inv by (auto simp add: SCHEDULER_MAX_TASKS_def)
  obtain new where "calls (run ops ?s) = calls s @ new" "\<forall>c\<in>set new. call_fn c \<noteq> 0"
    using log by (auto simp add: init_calls)
  then have "\<forall>c\<in>set (drop (length (calls s)) (calls (run ops ?s))). call_fn c \<noteq> 0" by simp
  with slots show ?thesis by blast
qed

theorem due_slot_has_function_witness:
  "(let s = run [AddTask 7 3 1 5, TickStep 1]
              (schedulerInit \<lparr>schedulerTasks = [zero_task], errorCode = 0, calls = []\<rparr>)
    in 0 < SCHEDULER_MAX_TASKS s \<and> 0 < runMe (schedulerTasks s ! 0) \<and>
       pTask (schedulerTasks s ! 0) \<noteq> 0) \<and>
   (let s = run [AddTask 7 3 1 5, TickStep 1, DispatchOnce 1]
              (schedulerInit \<lparr>schedulerTasks = [zero_task], errorCode = 0, calls = []\<rparr>)
    in calls s = [\<lparr>call_slot = 0, call_fn = 7, call_ctx = 3, call_ticks = 1\<rparr>] \<and>
       (\<forall>c\<in>set (calls s). call_fn c \<noteq> 0))"
proof -
  let ?i = "\<lparr>schedulerTasks = [zero_task], errorCode = 0, calls = []\<rparr>"
  let ?s = "run [AddTask 7 3 1 5, TickStep 1] (schedulerInit ?i)"
  let ?d = "run [AddTask 7 3 1 5, TickStep 1, DispatchOnce 1] (schedulerInit ?i)"
  have ts: "schedulerTasks ?s = [\<lparr>pTask = 7, task_context = 3, delay = 5, period = 5, runMe = 1\<rparr>]"
    by (simp add: run_Cons run_Nil add_tasks update_tasks init_tasks find_gap.simps
        zero_task_fields update_task_def Let_def)
  have n: "0 < SCHEDULER_MAX_TASKS ?s" by (simp add: SCHEDULER_MAX_TASKS_def ts)
  have due: "0 < runMe (schedulerTasks ?s ! 0)" by (simp add: ts)
  have f: "pTask (schedulerTasks ?s ! 0) \<noteq> 0"
    using due_slot_has_function [of "[AddTask 7 3 1 5, TickStep 1]" ?i, THEN conjunct1,
        THEN spec, THEN mp, OF n, THEN mp, OF due] .
  have cs: "calls ?d = [\<lparr>call_slot = 0, call_fn = 7, call_ctx = 3, call_ticks = 1\<rparr>]"
    by (simp add: run_Cons run_Nil add_tasks add_calls update_tasks update_calls dispatch_calls
        dispatch_calls_def call_of_def init_tasks init_calls find_gap.simps
        zero_task_fields update_task_def Let_def)
  have l: "\<forall>c\<in>set (calls ?d). call_fn c \<noteq> 0"
    using due_slot_has_function [of "[AddTask 7 3 1 5, TickStep 1, DispatchOnce 1]" ?i,
        THEN conjunct2] by simp
  show ?thesis unfolding Let_def using n due f cs l by blast
qed

end
